theory Spec2Isabelle
  imports Main "HOL-Library.Multiset"
begin

section \<open>Values, errors and the remote service\<close>

text \<open>
  Decoded JSON as the Python program sees it: \<open>None\<close>, \<open>bool\<close>, \<open>int\<close>, \<open>str\<close>,
  \<open>list\<close> and \<open>dict\<close> (an association list, keys in order). Numbers are integers.
\<close>

datatype json =
    JNull
  | JBool bool
  | JNum int
  | JStr string
  | JList "json list"
  | JObj "(string \<times> json) list"

text \<open>Python truthiness, as used by \<open>if not repos\<close> and \<open>r.get("archived")\<close>.\<close>

fun truthy :: "json \<Rightarrow> bool" where
  "truthy JNull = False"
| "truthy (JBool b) = b"
| "truthy (JNum n) = (n \<noteq> 0)"
| "truthy (JStr s) = (s \<noteq> [])"
| "truthy (JList xs) = (xs \<noteq> [])"
| "truthy (JObj kvs) = (kvs \<noteq> [])"

text \<open>
  The exceptions the modelled code can raise. \<open>HTTPException\<close> carries
  \<open>status_code\<close> and \<open>detail\<close>; \<open>ClientError\<close> is a transport failure of
  \<open>session.get\<close>; \<open>JSONError\<close> is \<open>resp.json()\<close> failing to decode.
\<close>

datatype py_error =
    HTTPException int string
  | ValueError
  | KeyError
  | TypeError
  | AttributeError
  | JSONError
  | ClientError

record request =
  url :: string
  req_headers :: "(string \<times> string) list"
  params :: "(string \<times> json) list option"

text \<open>
  A response: \<open>resp.status\<close>, \<open>resp.headers.get\<close>, \<open>await resp.text()\<close> and
  \<open>await resp.json()\<close> (\<open>None\<close> when decoding raises).
\<close>

record response =
  status :: int
  headers :: "string \<Rightarrow> string option"
  text_body :: string
  json_body :: "json option"

text \<open>
  What a coroutine does to the outside, in order: a GET that was issued, a sleep of so
  many seconds, and taking and giving back a permit of the semaphore it was handed
  (\<open>async with sem\<close>).
\<close>

datatype effect = Get request | Sleep int | Acquire | Release

text \<open>
  The world outside the program. The reply to a request and the reading of
  \<open>int(time.time())\<close> may depend on everything done so far. \<open>parse_int\<close> is Python's
  built-in \<open>int\<close> on a string (\<open>None\<close> for \<open>ValueError\<close>), and \<open>str_of\<close> is how an
  f-string writes a decoded value that is not a string.
\<close>

record world =
  respond :: "effect list \<Rightarrow> request \<Rightarrow> py_error + response"
  clock :: "effect list \<Rightarrow> int"
  parse_int :: "string \<Rightarrow> int option"
  str_of :: "json \<Rightarrow> string"

definition GH_API :: string where
  "GH_API = ''https://api.github.com''"

definition gh_headers :: "string \<Rightarrow> (string \<times> string) list" where
  "gh_headers token =
     [(''Authorization'', ''Bearer '' @ token),
      (''Accept'', ''application/vnd.github+json''),
      (''X-GitHub-Api-Version'', ''2022-11-28'')]"

definition session_get ::
  "world \<Rightarrow> request \<Rightarrow> effect list \<Rightarrow> (py_error + response) \<times> effect list" where
  "session_get w rq tr = (respond w tr rq, tr @ [Get rq])"

section \<open>Resilient request executor\<close>

text \<open>
  \<open>_fetch_with_retry\<close>. The \<open>for attempt in range(max_retries)\<close> loop is the recursion
  over the list of attempt numbers; the empty list is the code after the loop
  (\<open>return await session.get(...)\<close>).
\<close>

fun fetch_attempts ::
  "world \<Rightarrow> request \<Rightarrow> nat list \<Rightarrow> effect list \<Rightarrow> (py_error + response) \<times> effect list" where
  "fetch_attempts w rq [] tr = session_get w rq tr"
| "fetch_attempts w rq (attempt # rest) tr =
     (case session_get w rq tr of
        (Inl e, tr') \<Rightarrow> (Inl e, tr')
      | (Inr resp, tr') \<Rightarrow>
          if status resp = 403 then
            (case headers resp ''X-RateLimit-Reset'' of
               None \<Rightarrow>
                 fetch_attempts w rq rest (tr' @ [Sleep (30 * (int attempt + 1))])
             | Some reset_ts \<Rightarrow>
                 if reset_ts \<noteq> [] then
                   (case parse_int w reset_ts of
                      None \<Rightarrow> (Inl ValueError, tr')
                    | Some r \<Rightarrow>
                        fetch_attempts w rq rest
                          (tr' @ [Sleep (min (max (r - clock w tr') 1) 120)]))
                 else fetch_attempts w rq rest (tr' @ [Sleep (30 * (int attempt + 1))]))
          else (Inr resp, tr'))"

definition fetch_with_retry ::
  "world \<Rightarrow> request \<Rightarrow> nat \<Rightarrow> effect list \<Rightarrow> (py_error + response) \<times> effect list" where
  "fetch_with_retry w rq max_retries tr = fetch_attempts w rq [0..<max_retries] tr"

section \<open>Paginated collector\<close>

definition repos_request :: "string \<Rightarrow> (string \<times> string) list \<Rightarrow> nat \<Rightarrow> request" where
  "repos_request org hdrs page =
     \<lparr>url = GH_API @ ''/orgs/'' @ org @ ''/repos'',
      req_headers = hdrs,
      params = Some [(''per_page'', JNum 100), (''page'', JNum (int page))]\<rparr>"

text \<open>
  \<open>list.extend\<close> with a decoded JSON value: a list gives its items, a dict its keys, a
  string its characters; the other values are not iterable.
\<close>

fun extend :: "json list \<Rightarrow> json \<Rightarrow> py_error + json list" where
  "extend acc (JList xs) = Inr (acc @ xs)"
| "extend acc (JObj kvs) = Inr (acc @ map (\<lambda>kv. JStr (fst kv)) kvs)"
| "extend acc (JStr s) = Inr (acc @ map (\<lambda>c. JStr [c]) s)"
| "extend acc _ = Inl TypeError"

text \<open>
  The \<open>while True\<close> loop of \<open>_fetch_all_repos\<close>, with its variables \<open>page\<close> and
  \<open>all_repos\<close>. The loop ends only on an empty page or an exception, so the result is
  an option: \<open>None\<close> is the loop that never ends.
\<close>

partial_function (option) fetch_pages ::
  "world \<Rightarrow> string \<Rightarrow> (string \<times> string) list \<Rightarrow> nat \<Rightarrow> json list \<Rightarrow> effect list
     \<Rightarrow> ((py_error + json list) \<times> effect list) option" where
  "fetch_pages w org hdrs page all_repos tr =
     (case fetch_with_retry w (repos_request org hdrs page) 3 tr of
        (Inl e, tr') \<Rightarrow> Some (Inl e, tr')
      | (Inr resp, tr') \<Rightarrow>
          if status resp = 401 then
            Some (Inl (HTTPException 401 ''Invalid GitHub token.''), tr')
          else if status resp = 404 then
            Some (Inl (HTTPException 404 (''Organization '' @ [CHR 0x27] @ org @ [CHR 0x27] @ '' not found.'')), tr')
          else if status resp \<noteq> 200 then
            Some (Inl (HTTPException (status resp) (''GitHub API error: '' @ text_body resp)), tr')
          else
            (case json_body resp of
               None \<Rightarrow> Some (Inl JSONError, tr')
             | Some repos \<Rightarrow>
                 if \<not> truthy repos then Some (Inr all_repos, tr')
                 else
                   (case extend all_repos repos of
                      Inl e \<Rightarrow> Some (Inl e, tr')
                    | Inr all_repos' \<Rightarrow> fetch_pages w org hdrs (page + 1) all_repos' tr')))"

definition fetch_all_repos ::
  "world \<Rightarrow> string \<Rightarrow> (string \<times> string) list \<Rightarrow> effect list
     \<Rightarrow> ((py_error + json list) \<times> effect list) option" where
  "fetch_all_repos w org hdrs tr = fetch_pages w org hdrs 1 [] tr"

section \<open>Incremental event emitter\<close>

text \<open>
  The events of a stream, before \<open>_sse_event\<close> writes them out: \<open>start\<close> with the total,
  \<open>progress\<close> with the identifier and the count, \<open>data\<close> with the payload, \<open>error\<close>
  with the detail, \<open>done\<close>.
\<close>

datatype event = Start nat | Progress json nat | Data json | Error string | Done

text \<open>\<open>r[key]\<close> and \<open>r.get(key, default)\<close> on a decoded JSON value.\<close>

fun subscript :: "json \<Rightarrow> string \<Rightarrow> py_error + json" where
  "subscript (JObj kvs) key = (case map_of kvs key of None \<Rightarrow> Inl KeyError | Some v \<Rightarrow> Inr v)"
| "subscript _ key = Inl TypeError"

fun dict_get :: "json \<Rightarrow> string \<Rightarrow> json \<Rightarrow> py_error + json" where
  "dict_get (JObj kvs) key dflt = Inr (case map_of kvs key of None \<Rightarrow> dflt | Some v \<Rightarrow> v)"
| "dict_get _ key dflt = Inl AttributeError"

text \<open>
  \<open>asyncio.as_completed(tasks)\<close> hands out the tasks as they finish. The event loop
  decides this order; \<open>order\<close> lists the positions of the tasks, each one once, in the
  order of completion.
\<close>

definition as_completed :: "nat list \<Rightarrow> 'a list \<Rightarrow> 'a list" where
  "as_completed order tasks = map (\<lambda>i. tasks ! i) order"

text \<open>The values \<open>repo["name"]\<close> of the dict comprehension that creates the tasks.\<close>

fun task_names :: "json list \<Rightarrow> py_error + json list" where
  "task_names [] = Inr []"
| "task_names (repo # rest) =
     (case subscript repo ''name'' of
        Inl e \<Rightarrow> Inl e
      | Inr name \<Rightarrow>
          (case task_names rest of Inl e \<Rightarrow> Inl e | Inr names \<Rightarrow> Inr (name # names)))"

text \<open>
  The loop \<open>for coro in asyncio.as_completed(tasks)\<close> of \<open>stream_audit_repos\<close>, over the
  outcomes of the tasks in completion order: awaiting a task that raised raises in the
  generator. The result is the events yielded and the exception that ended the
  generator, if any.
\<close>

fun audit_progress ::
  "nat \<Rightarrow> (py_error + (string \<times> json) list) list \<Rightarrow> event list \<times> py_error option" where
  "audit_progress processed [] = ([], None)"
| "audit_progress processed (Inl e # rest) = ([], Some e)"
| "audit_progress processed (Inr repo_data # rest) =
     (case map_of repo_data ''repository'' of
        None \<Rightarrow> ([], Some KeyError)
      | Some repo \<Rightarrow>
          (case audit_progress (processed + 1) rest of
             (evs, r) \<Rightarrow>
               (Progress repo (processed + 1) # Data (JObj repo_data) # evs, r)))"

text \<open>
  \<open>stream_audit_repos\<close>. \<open>process_one i repo\<close> is the outcome of the task created for
  the repository at position \<open>i\<close>: the dict that \<open>_audit_single_repo\<close> returns, or the
  exception it raises.
\<close>

definition stream_audit_repos ::
  "world \<Rightarrow> (nat \<Rightarrow> json \<Rightarrow> py_error + (string \<times> json) list) \<Rightarrow> nat list \<Rightarrow> string \<Rightarrow> string
     \<Rightarrow> (event list \<times> py_error option) option" where
  "stream_audit_repos w process_one order gh_token gh_org =
     (case fetch_all_repos w gh_org (gh_headers gh_token) [] of
        None \<Rightarrow> None
      | Some (Inl (HTTPException code detail), tr) \<Rightarrow> Some ([Error detail], None)
      | Some (Inl e, tr) \<Rightarrow> Some ([], Some e)
      | Some (Inr all_repos, tr) \<Rightarrow>
          (let total = length all_repos in
           case task_names all_repos of
             Inl e \<Rightarrow> Some ([Start total], Some e)
           | Inr names \<Rightarrow>
               (case audit_progress 0
                       (as_completed order
                          (map (\<lambda>(i, repo). process_one i repo) (enumerate 0 all_repos))) of
                  (evs, None) \<Rightarrow> Some (Start total # evs @ [Done], None)
                | (evs, Some e) \<Rightarrow> Some (Start total # evs, Some e))))"

text \<open>
  \<open>[r["name"] for r in all_repos if not r.get("archived")]\<close>, as
  \<open>stream_branches\<close> and \<open>stream_access\<close> compute it.
\<close>

fun repo_names :: "json list \<Rightarrow> py_error + json list" where
  "repo_names [] = Inr []"
| "repo_names (r # rest) =
     (case dict_get r ''archived'' JNull of
        Inl e \<Rightarrow> Inl e
      | Inr archived \<Rightarrow>
          if \<not> truthy archived then
            (case subscript r ''name'' of
               Inl e \<Rightarrow> Inl e
             | Inr name \<Rightarrow>
                 (case repo_names rest of
                    Inl e \<Rightarrow> Inl e
                  | Inr names \<Rightarrow> Inr (name # names)))
          else repo_names rest)"

text \<open>
  The loop of \<open>stream_branches\<close> and of \<open>stream_access\<close>: a task gives the name and
  the list found for it, and \<open>data\<close> is yielded only for a non-empty list.
\<close>

fun list_progress ::
  "nat \<Rightarrow> (py_error + json \<times> json list) list \<Rightarrow> event list \<times> py_error option" where
  "list_progress processed [] = ([], None)"
| "list_progress processed (Inl e # rest) = ([], Some e)"
| "list_progress processed (Inr (repo_name, found) # rest) =
     (case list_progress (processed + 1) rest of
        (evs, r) \<Rightarrow>
          (Progress repo_name (processed + 1) #
             (if found \<noteq> [] then [Data (JList found)] else []) @ evs, r))"

text \<open>
  \<open>_process_one\<close> of \<open>stream_branches\<close> and \<open>_scan_repo_access\<close> pair the name with
  what the scan returns, \<open>scan i name\<close> being the outcome of \<open>_get_branch_details\<close>
  (of \<open>_get_repo_access\<close>) for the task at position \<open>i\<close>.
\<close>

definition scan_one ::
  "(nat \<Rightarrow> json \<Rightarrow> py_error + json list) \<Rightarrow> nat \<Rightarrow> json \<Rightarrow> py_error + json \<times> json list" where
  "scan_one scan i name =
     (case scan i name of Inl e \<Rightarrow> Inl e | Inr found \<Rightarrow> Inr (name, found))"

definition stream_branches ::
  "world \<Rightarrow> (nat \<Rightarrow> json \<Rightarrow> py_error + json list) \<Rightarrow> nat list \<Rightarrow> string \<Rightarrow> string
     \<Rightarrow> (event list \<times> py_error option) option" where
  "stream_branches w get_branch_details order gh_token gh_org =
     (case fetch_all_repos w gh_org (gh_headers gh_token) [] of
        None \<Rightarrow> None
      | Some (Inl (HTTPException code detail), tr) \<Rightarrow> Some ([Error detail], None)
      | Some (Inl e, tr) \<Rightarrow> Some ([], Some e)
      | Some (Inr all_repos, tr) \<Rightarrow>
          (case repo_names all_repos of
             Inl e \<Rightarrow> Some ([], Some e)
           | Inr names \<Rightarrow>
               (let total = length names in
                case list_progress 0
                       (as_completed order
                          (map (\<lambda>(i, name). scan_one get_branch_details i name)
                             (enumerate 0 names))) of
                  (evs, None) \<Rightarrow> Some (Start total # evs @ [Done], None)
                | (evs, Some e) \<Rightarrow> Some (Start total # evs, Some e))))"

definition stream_access ::
  "world \<Rightarrow> (nat \<Rightarrow> json \<Rightarrow> py_error + json list) \<Rightarrow> nat list \<Rightarrow> string \<Rightarrow> string
     \<Rightarrow> (event list \<times> py_error option) option" where
  "stream_access w get_repo_access order gh_token gh_org =
     (case fetch_all_repos w gh_org (gh_headers gh_token) [] of
        None \<Rightarrow> None
      | Some (Inl (HTTPException code detail), tr) \<Rightarrow> Some ([Error detail], None)
      | Some (Inl e, tr) \<Rightarrow> Some ([], Some e)
      | Some (Inr all_repos, tr) \<Rightarrow>
          (case repo_names all_repos of
             Inl e \<Rightarrow> Some ([], Some e)
           | Inr names \<Rightarrow>
               (let total = length names in
                case list_progress 0
                       (as_completed order
                          (map (\<lambda>(i, name). scan_one get_repo_access i name)
                             (enumerate 0 names))) of
                  (evs, None) \<Rightarrow> Some (Start total # evs @ [Done], None)
                | (evs, Some e) \<Rightarrow> Some (Start total # evs, Some e))))"

section \<open>The repository audit unit\<close>























section \<open>The event loop and the semaphore\<close>








section \<open>Reading traces\<close>

fun is_get :: "effect \<Rightarrow> bool" where
  "is_get (Get rq) = True"
| "is_get _ = False"

text \<open>The number of GET requests issued in a trace, and the sleeps in it, in order.\<close>

definition gets :: "effect list \<Rightarrow> nat" where
  "gets tr = length (filter is_get tr)"

fun sleeps :: "effect list \<Rightarrow> int list" where
  "sleeps [] = []"
| "sleeps (Sleep d # tr) = d # sleeps tr"
| "sleeps (_ # tr) = sleeps tr"

text \<open>
  How many of the responses \<open>rs start\<close>, \<open>rs (start + 1)\<close>, ... are 403 before the first
  one that is not, looking at \<open>n\<close> of them at most.
\<close>

definition leading_403 :: "(nat \<Rightarrow> response) \<Rightarrow> nat \<Rightarrow> nat \<Rightarrow> nat" where
  "leading_403 rs start n =
     length (takeWhile (\<lambda>i. status (rs (start + i)) = 403) [0..<n])"

definition page_gets :: "string \<Rightarrow> (string \<times> string) list \<Rightarrow> nat \<Rightarrow> nat \<Rightarrow> effect list" where
  "page_gets org hdrs i j = map (\<lambda>p. Get (repos_request org hdrs p)) [i..<j]"

text \<open>Effects without taking or giving back a permit: requests and sleeps.\<close>

definition permit_free :: "effect list \<Rightarrow> bool" where
  "permit_free body = (Acquire \<notin> set body \<and> Release \<notin> set body)"

text \<open>The trace \<open>tr'\<close> is \<open>tr\<close> followed by requests and sleeps only.\<close>

definition issues :: "effect list \<Rightarrow> effect list \<Rightarrow> bool" where
  "issues tr tr' = (\<exists>body. tr' = tr @ body \<and> permit_free body)"

text \<open>
  A task holds a permit when it has taken one more often than it has given one back.
\<close>

definition holds_permit :: "effect list \<Rightarrow> bool" where
  "holds_permit past = (count_list past Release < count_list past Acquire)"




section \<open>Reading event streams\<close>

fun progress_counts :: "event list \<Rightarrow> nat list" where
  "progress_counts [] = []"
| "progress_counts (Progress ident n # evs) = n # progress_counts evs"
| "progress_counts (_ # evs) = progress_counts evs"

fun is_data :: "event \<Rightarrow> bool" where
  "is_data (Data payload) = True"
| "is_data _ = False"

text \<open>What one completed unit of the list streams puts on the stream.\<close>

definition list_unit_events :: "nat \<Rightarrow> json \<Rightarrow> json list \<Rightarrow> event list" where
  "list_unit_events k name found =
     Progress name (Suc k) # (if found \<noteq> [] then [Data (JList found)] else [])"

definition audit_unit_events :: "nat \<Rightarrow> json \<Rightarrow> (string \<times> json) list \<Rightarrow> event list" where
  "audit_unit_events k ident repo_data = [Progress ident (Suc k), Data (JObj repo_data)]"

fun progress_idents :: "event list \<Rightarrow> json list" where
  "progress_idents [] = []"
| "progress_idents (Progress ident n # evs) = ident # progress_idents evs"
| "progress_idents (_ # evs) = progress_idents evs"

definition is_archived :: "json \<Rightarrow> bool" where
  "is_archived r = (case dict_get r ''archived'' JNull of Inr a \<Rightarrow> truthy a | Inl e \<Rightarrow> False)"

definition repo_name :: "json \<Rightarrow> json" where
  "repo_name r = (case subscript r ''name'' of Inr name \<Rightarrow> name | Inl e \<Rightarrow> JNull)"

section \<open>Example worlds\<close>

text \<open>A decimal reader for the examples, standing for Python's \<open>int\<close> on digit strings.\<close>

definition digit_val :: "char \<Rightarrow> int option" where
  "digit_val = map_of
     [(CHR ''0'', 0), (CHR ''1'', 1), (CHR ''2'', 2), (CHR ''3'', 3), (CHR ''4'', 4),
      (CHR ''5'', 5), (CHR ''6'', 6), (CHR ''7'', 7), (CHR ''8'', 8), (CHR ''9'', 9)]"

fun decimal_from :: "int \<Rightarrow> string \<Rightarrow> int option" where
  "decimal_from acc [] = Some acc"
| "decimal_from acc (c # cs) =
     (case digit_val c of None \<Rightarrow> None | Some d \<Rightarrow> decimal_from (10 * acc + d) cs)"

definition decimal :: "string \<Rightarrow> int option" where
  "decimal s = (if s = [] then None else decimal_from 0 s)"

definition plain_response :: "int \<Rightarrow> response" where
  "plain_response st =
     \<lparr>status = st, headers = (\<lambda>h. None), text_body = ''rate limited'', json_body = None\<rparr>"

definition reset_response :: "string \<Rightarrow> response" where
  "reset_response ts =
     \<lparr>status = 403, headers = [''X-RateLimit-Reset'' \<mapsto> ts], text_body = [],
      json_body = None\<rparr>"

definition items_response :: "json list \<Rightarrow> response" where
  "items_response xs =
     \<lparr>status = 200, headers = (\<lambda>h. None), text_body = [], json_body = Some (JList xs)\<rparr>"

definition some_request :: request where
  "some_request = \<lparr>url = GH_API @ ''/orgs/acme/repos'', req_headers = [], params = None\<rparr>"

text \<open>Three rate-limit rejections without a reset header, then a success.\<close>

definition limited_thrice :: "nat \<Rightarrow> response" where
  "limited_thrice i = (if i < 3 then plain_response 403 else plain_response 200)"

definition world_limited :: world where
  "world_limited =
     \<lparr>respond = (\<lambda>h rq. Inr (limited_thrice (gets h))), clock = (\<lambda>h. 1000),
      parse_int = decimal,
      str_of = (\<lambda>v. [])\<rparr>"

text \<open>A service that always rejects, without a reset header.\<close>

definition world_rejecting :: world where
  "world_rejecting =
     \<lparr>respond = (\<lambda>h rq. Inr (plain_response 403)), clock = (\<lambda>h. 1000),
      parse_int = decimal,
      str_of = (\<lambda>v. [])\<rparr>"

text \<open>A service that always rejects and names the reset time \<open>ts\<close>; the clock reads 1000.\<close>

definition world_reset :: "string \<Rightarrow> world" where
  "world_reset ts =
     \<lparr>respond = (\<lambda>h rq. Inr (reset_response ts)), clock = (\<lambda>h. 1000),
      parse_int = decimal,
      str_of = (\<lambda>v. [])\<rparr>"

text \<open>The page number a list request asks for.\<close>

definition page_of :: "request \<Rightarrow> nat" where
  "page_of rq =
     (case params rq of
        None \<Rightarrow> 0
      | Some ps \<Rightarrow> (case map_of ps ''page'' of Some (JNum n) \<Rightarrow> nat n | _ \<Rightarrow> 0))"

definition one_repo :: json where
  "one_repo = JObj [(''name'', JStr ''tool''), (''archived'', JBool False)]"

text \<open>Pages of 100, 100 and 37 repositories, and empty pages after them.\<close>

definition three_pages :: "nat \<Rightarrow> json list" where
  "three_pages p =
     (if p = 1 \<or> p = 2 then replicate 100 one_repo
      else if p = 3 then replicate 37 one_repo else [])"

definition world_three_pages :: world where
  "world_three_pages =
     \<lparr>respond = (\<lambda>h rq. Inr (items_response (three_pages (page_of rq)))),
      clock = (\<lambda>h. 1000), parse_int = decimal,
      str_of = (\<lambda>v. [])\<rparr>"

text \<open>One page of repositories, then the organization is gone.\<close>

definition world_vanishing :: world where
  "world_vanishing =
     \<lparr>respond = (\<lambda>h rq. Inr (if page_of rq = 1 then items_response [one_repo]
                               else plain_response 404)),
      clock = (\<lambda>h. 1000), parse_int = decimal,
      str_of = (\<lambda>v. [])\<rparr>"

definition docs_repo :: json where
  "docs_repo = JObj [(''name'', JStr ''docs'')]"

definition old_repo :: json where
  "old_repo = JObj [(''name'', JStr ''old''), (''archived'', JBool True)]"

text \<open>Always 401.\<close>

definition world_unauthorized :: world where
  "world_unauthorized =
     \<lparr>respond = (\<lambda>h rq. Inr (plain_response 401)), clock = (\<lambda>h. 1000), parse_int = decimal,
      str_of = (\<lambda>v. [])\<rparr>"

text \<open>An organization with two active repositories and an archived one, on one page.\<close>

definition world_org :: world where
  "world_org =
     \<lparr>respond = (\<lambda>h rq. Inr (items_response
                    (if page_of rq = 1 then [one_repo, docs_repo, old_repo] else []))),
      clock = (\<lambda>h. 1000), parse_int = decimal,
      str_of = (\<lambda>v. [])\<rparr>"

text \<open>Units for the examples: branches are found for \<open>tool\<close> only.\<close>

definition branches_found :: "nat \<Rightarrow> json \<Rightarrow> py_error + json list" where
  "branches_found i name =
     (if name = JStr ''tool'' then Inr [JObj [(''branch_name'', JStr ''main'')]] else Inr [])"

definition audit_found :: "nat \<Rightarrow> json \<Rightarrow> py_error + (string \<times> json) list" where
  "audit_found i repo = Inr [(''repository'', repo_name repo), (''owner'', JStr ''acme'')]"





section \<open>Properties of the executor\<close>

lemma gets_append [simp]: "gets (a @ b) = gets a + gets b"
  by (simp add: gets_def)

lemma gets_simps [simp]:
  "gets [] = 0" "gets (Get rq # tr) = Suc (gets tr)" "gets (Sleep d # tr) = gets tr"
  "gets (Acquire # tr) = gets tr" "gets (Release # tr) = gets tr"
  by (simp_all add: gets_def)

lemma sleeps_append [simp]: "sleeps (a @ b) = sleeps a @ sleeps b"
  by (induction a rule: sleeps.induct) simp_all

lemma leading_403_0 [simp]: "leading_403 rs s 0 = 0"
  by (simp add: leading_403_def)

lemma leading_403_Suc:
  "leading_403 rs s (Suc n) =
     (if status (rs s) = 403 then Suc (leading_403 rs (Suc s) n) else 0)"
proof -
  have "[0..<Suc n] = 0 # map Suc [0..<n]"
    by (simp add: upt_conv_Cons map_Suc_upt del: upt_Suc)
  then show ?thesis
    by (simp add: leading_403_def takeWhile_map comp_def del: upt_Suc)
qed

lemma leading_403_props:
  "leading_403 rs s n \<le> n \<and>
   (\<forall>i < leading_403 rs s n. status (rs (s + i)) = 403) \<and>
   (leading_403 rs s n < n \<longrightarrow> status (rs (s + leading_403 rs s n)) \<noteq> 403)"
proof (induction n arbitrary: s)
  case 0
  show ?case by simp
next
  case (Suc n)
  show ?case
  proof (cases "status (rs s) = 403")
    case False
    then show ?thesis by (simp add: leading_403_Suc)
  next
    case True
    have "status (rs (s + i)) = 403" if "i < Suc (leading_403 rs (Suc s) n)" for i
    proof (cases i)
      case 0
      with True show ?thesis by simp
    next
      case (Suc j)
      with that Suc.IH[of "Suc s"] show ?thesis by simp
    qed
    with True Suc.IH[of "Suc s"] show ?thesis by (simp add: leading_403_Suc)
  qed
qed

lemma fetch_attempts_served:
  assumes replies: "\<forall>h. respond w h rq = Inr (rs (gets h))"
    and parsable: "\<forall>i v. headers (rs i) ''X-RateLimit-Reset'' = Some v \<and> v \<noteq> []
                     \<longrightarrow> parse_int w v \<noteq> None"
  shows "\<exists>tr'. fetch_attempts w rq as tr =
                  (Inr (rs (gets tr + leading_403 rs (gets tr) (length as))), tr')
           \<and> gets tr' = gets tr + leading_403 rs (gets tr) (length as) + 1
           \<and> length (sleeps tr') = length (sleeps tr) + leading_403 rs (gets tr) (length as)"
proof (induction as arbitrary: tr)
  case Nil
  show ?case by (simp add: session_get_def replies)
next
  case (Cons a as)
  show ?case
  proof (cases "status (rs (gets tr)) = 403")
    case False
    then show ?thesis by (simp add: session_get_def replies leading_403_Suc)
  next
    case limited: True
    show ?thesis
    proof (cases "headers (rs (gets tr)) ''X-RateLimit-Reset''")
      case None
      with limited Cons.IH[of "tr @ [Get rq] @ [Sleep (30 * (int a + 1))]"] show ?thesis
        by (simp add: session_get_def replies leading_403_Suc)
    next
      case (Some v)
      show ?thesis
      proof (cases "v = []")
        case True
        with limited Some Cons.IH[of "tr @ [Get rq] @ [Sleep (30 * (int a + 1))]"]
        show ?thesis
          by (simp add: session_get_def replies leading_403_Suc)
      next
        case False
        with parsable Some obtain r where r: "parse_int w v = Some r" by blast
        with False limited Some
          Cons.IH[of "tr @ [Get rq] @ [Sleep (min (max (r - clock w (tr @ [Get rq])) 1) 120)]"]
        show ?thesis
          by (simp add: session_get_def replies leading_403_Suc)
      qed
    qed
  qed
qed

text \<open>
  Claim C2. Let the remote answer the successive GETs of a request with the responses
  \<open>rs 0\<close>, \<open>rs 1\<close>, ... (no transport failure, and every reset header it sends is a
  number). Then \<open>_fetch_with_retry\<close> with its budget of 3 returns a response and never
  an exception. The response returned is the first one whose status is not 403, at once
  and with no sleep after it; when the three attempts of the loop all got 403 (\<open>k = 3\<close>),
  it has slept three times and returns the response of one last request, whatever its
  status.
\<close>

theorem fetch_with_retry_first_non_403:
  assumes "\<forall>h. respond w h rq = Inr (rs (gets h))"
    and "\<forall>i v. headers (rs i) ''X-RateLimit-Reset'' = Some v \<and> v \<noteq> []
           \<longrightarrow> parse_int w v \<noteq> None"
  shows "\<exists>k tr'. k \<le> 3
           \<and> (\<forall>i < k. status (rs (gets tr + i)) = 403)
           \<and> (k < 3 \<longrightarrow> status (rs (gets tr + k)) \<noteq> 403)
           \<and> fetch_with_retry w rq 3 tr = (Inr (rs (gets tr + k)), tr')
           \<and> gets tr' = gets tr + k + 1
           \<and> length (sleeps tr') = length (sleeps tr) + k"
proof -
  let ?k = "leading_403 rs (gets tr) 3"
  from fetch_attempts_served[OF assms, of "[0..<3]" tr]
  obtain tr' where "fetch_with_retry w rq 3 tr = (Inr (rs (gets tr + ?k)), tr')"
    "gets tr' = gets tr + ?k + 1" "length (sleeps tr') = length (sleeps tr) + ?k"
    by (auto simp: fetch_with_retry_def)
  with leading_403_props[of rs "gets tr" 3] show ?thesis by blast
qed

theorem fetch_with_retry_first_non_403_witness:
  "(\<forall>h. respond world_limited h some_request = Inr (limited_thrice (gets h)))
   \<and> (\<exists>tr'. fetch_with_retry world_limited some_request 3 [] = (Inr (plain_response 200), tr')
           \<and> gets tr' = 4 \<and> length (sleeps tr') = 3)"
proof -
  have h1: "\<forall>h. respond world_limited h some_request = Inr (limited_thrice (gets h))"
    by (simp add: world_limited_def)
  have h2: "\<forall>i v. headers (limited_thrice i) ''X-RateLimit-Reset'' = Some v \<and> v \<noteq> []
           \<longrightarrow> parse_int world_limited v \<noteq> None"
    by (simp add: limited_thrice_def plain_response_def)
  from fetch_with_retry_first_non_403[OF h1 h2, of "[]"]
  obtain k tr' where k: "k \<le> 3" "\<forall>i < k. status (limited_thrice i) = 403"
    "k < 3 \<longrightarrow> status (limited_thrice k) \<noteq> 403"
    and r: "fetch_with_retry world_limited some_request 3 [] = (Inr (limited_thrice k), tr')"
    "gets tr' = k + 1" "length (sleeps tr') = k"
    by auto
  from k(1,3) have "k = 3"
    by (cases "k < 3") (simp_all add: limited_thrice_def plain_response_def)
  with r h1 show ?thesis by (simp add: limited_thrice_def)
qed

text \<open>
  Claim C3. When an attempt of the loop gets a 403, the sleep before the next attempt is
  \<open>max (reset - now) 1\<close> capped at 120 when the response carries a reset timestamp, so it
  lies between 1 and 120; it is \<open>30 * (attempt + 1)\<close> when the response carries no reset
  header. With no reset header at all, the three waits of a call are 30, 60 and 90
  seconds.
\<close>

theorem retry_wait_formula:
  "(respond w tr rq = Inr resp \<and> status resp = 403 \<and>
      headers resp ''X-RateLimit-Reset'' = Some v \<and> v \<noteq> [] \<and> parse_int w v = Some reset \<longrightarrow>
      fetch_attempts w rq (attempt # rest) tr =
        fetch_attempts w rq rest
          (tr @ [Get rq, Sleep (min (max (reset - clock w (tr @ [Get rq])) 1) 120)]) \<and>
      1 \<le> min (max (reset - clock w (tr @ [Get rq])) 1) 120 \<and>
      min (max (reset - clock w (tr @ [Get rq])) 1) 120 \<le> 120)
   \<and> (respond w tr rq = Inr resp \<and> status resp = 403 \<and>
      headers resp ''X-RateLimit-Reset'' = None \<longrightarrow>
      fetch_attempts w rq (attempt # rest) tr =
        fetch_attempts w rq rest (tr @ [Get rq, Sleep (30 * (int attempt + 1))]))
   \<and> ((\<forall>h. \<exists>r. respond w h rq = Inr r \<and> status r = 403 \<and>
          headers r ''X-RateLimit-Reset'' = None) \<longrightarrow>
      snd (fetch_with_retry w rq 3 tr) =
        tr @ [Get rq, Sleep 30, Get rq, Sleep 60, Get rq, Sleep 90, Get rq])"
proof (intro conjI impI)
  assume h: "\<forall>h. \<exists>r. respond w h rq = Inr r \<and> status r = 403 \<and>
          headers r ''X-RateLimit-Reset'' = None"
  have step: "fetch_attempts w rq (a # as) t =
           fetch_attempts w rq as (t @ [Get rq, Sleep (30 * (int a + 1))])" for a as t
  proof -
    from h obtain r where "respond w t rq = Inr r" "status r = 403"
      "headers r ''X-RateLimit-Reset'' = None" by blast
    then show ?thesis by (simp add: session_get_def)
  qed
  have three: "[0..<3] = [0, 1, 2]" by (simp add: upt_conv_Cons)
  show "snd (fetch_with_retry w rq 3 tr) =
        tr @ [Get rq, Sleep 30, Get rq, Sleep 60, Get rq, Sleep 90, Get rq]"
    unfolding fetch_with_retry_def three
    by (simp add: step session_get_def del: fetch_attempts.simps(2))
qed (simp_all add: session_get_def)

theorem retry_wait_formula_witness:
  "(respond (world_reset ''1010'') [] some_request = Inr (reset_response ''1010'') \<and>
    status (reset_response ''1010'') = 403 \<and>
    headers (reset_response ''1010'') ''X-RateLimit-Reset'' = Some ''1010'' \<and> ''1010'' \<noteq> [] \<and>
    parse_int (world_reset ''1010'') ''1010'' = Some 1010) \<and>
   fetch_attempts (world_reset ''1010'') some_request [0] [] =
     fetch_attempts (world_reset ''1010'') some_request [] [Get some_request, Sleep 10] \<and>
   (respond (world_reset ''2000'') [] some_request = Inr (reset_response ''2000'') \<and>
    status (reset_response ''2000'') = 403 \<and>
    headers (reset_response ''2000'') ''X-RateLimit-Reset'' = Some ''2000'' \<and> ''2000'' \<noteq> [] \<and>
    parse_int (world_reset ''2000'') ''2000'' = Some 2000) \<and>
   fetch_attempts (world_reset ''2000'') some_request [0] [] =
     fetch_attempts (world_reset ''2000'') some_request [] [Get some_request, Sleep 120] \<and>
   (respond world_rejecting [] some_request = Inr (plain_response 403) \<and>
    status (plain_response 403) = 403 \<and>
    headers (plain_response 403) ''X-RateLimit-Reset'' = None) \<and>
   fetch_attempts world_rejecting some_request [1, 2] [] =
     fetch_attempts world_rejecting some_request [2] [Get some_request, Sleep 60] \<and>
   (\<forall>h. \<exists>r. respond world_rejecting h some_request = Inr r \<and> status r = 403 \<and>
          headers r ''X-RateLimit-Reset'' = None) \<and>
   snd (fetch_with_retry world_rejecting some_request 3 []) =
     [Get some_request, Sleep 30, Get some_request, Sleep 60, Get some_request, Sleep 90,
      Get some_request]"
proof -
  have a: "respond (world_reset ts) [] some_request = Inr (reset_response ts) \<and>
    status (reset_response ts) = 403 \<and>
    headers (reset_response ts) ''X-RateLimit-Reset'' = Some ts" for ts
    by (simp add: world_reset_def reset_response_def)
  have p: "parse_int (world_reset ''1010'') ''1010'' = Some 1010"
    "parse_int (world_reset ''2000'') ''2000'' = Some 2000"
    by (simp_all add: world_reset_def decimal_def digit_val_def)
  have c: "clock (world_reset ts) h = 1000" for ts h
    by (simp add: world_reset_def)
  have b: "respond world_rejecting h some_request = Inr (plain_response 403) \<and>
    status (plain_response 403) = 403 \<and>
    headers (plain_response 403) ''X-RateLimit-Reset'' = None" for h
    by (simp add: world_rejecting_def plain_response_def)
  have t1: "fetch_attempts (world_reset ''1010'') some_request [0] [] =
     fetch_attempts (world_reset ''1010'') some_request [] [Get some_request, Sleep 10]"
    using retry_wait_formula[of "world_reset ''1010''" "[]" some_request "reset_response ''1010''"
        "''1010''" 1010 0 "[]"] a[of "''1010''"] p(1) c
    by simp
  have t2: "fetch_attempts (world_reset ''2000'') some_request [0] [] =
     fetch_attempts (world_reset ''2000'') some_request [] [Get some_request, Sleep 120]"
    using retry_wait_formula[of "world_reset ''2000''" "[]" some_request "reset_response ''2000''"
        "''2000''" 2000 0 "[]"] a[of "''2000''"] p(2) c
    by simp
  have t3: "fetch_attempts world_rejecting some_request [1, 2] [] =
     fetch_attempts world_rejecting some_request [2] [Get some_request, Sleep 60]"
    using retry_wait_formula[of world_rejecting "[]" some_request "plain_response 403"
        _ _ 1 "[2]"] b[of "[]"]
    by simp
  have b': "\<forall>h. \<exists>r. respond world_rejecting h some_request = Inr r \<and> status r = 403 \<and>
          headers r ''X-RateLimit-Reset'' = None"
    using b by blast
  have t4: "snd (fetch_with_retry world_rejecting some_request 3 []) =
     [Get some_request, Sleep 30, Get some_request, Sleep 60, Get some_request, Sleep 90,
      Get some_request]"
    using retry_wait_formula[of world_rejecting "[]" some_request] b' by simp
  from a[of "''1010''"] a[of "''2000''"] p b[of "[]"] b' t1 t2 t3 t4
  show ?thesis by simp
qed

section \<open>Properties of the collector\<close>

lemma fetch_with_retry_immediate:
  assumes "respond w tr rq = Inr resp" and "status resp \<noteq> 403"
  shows "fetch_with_retry w rq n tr = (Inr resp, tr @ [Get rq])"
proof (cases n)
  case 0
  with assms show ?thesis by (simp add: fetch_with_retry_def session_get_def)
next
  case (Suc m)
  have "[0..<Suc m] = 0 # [Suc 0..<Suc m]" by (simp add: upt_conv_Cons del: upt_Suc)
  with Suc assms show ?thesis
    by (simp add: fetch_with_retry_def session_get_def del: upt_Suc)
qed

lemma page_gets_step:
  "page < k \<Longrightarrow> page_gets org hdrs page k = Get (repos_request org hdrs page) # page_gets org hdrs (Suc page) k"
  by (simp add: page_gets_def upt_conv_Cons)

lemma fetch_pages_prefix:
  assumes good: "\<forall>h p. page \<le> p \<and> p < k \<longrightarrow>
      (\<exists>resp. respond w h (repos_request org hdrs p) = Inr resp \<and> status resp = 200 \<and>
         json_body resp = Some (JList (pages p)) \<and> pages p \<noteq> [])"
    and le: "page \<le> k"
  shows "fetch_pages w org hdrs page acc tr =
         fetch_pages w org hdrs k (acc @ concat (map pages [page..<k])) (tr @ page_gets org hdrs page k)"
  using good le
proof (induction "k - page" arbitrary: page acc tr)
  case 0
  then show ?case by (simp add: page_gets_def)
next
  case (Suc d)
  then have lt: "page < k" by simp
  with Suc.prems obtain resp where
    r: "respond w tr (repos_request org hdrs page) = Inr resp" "status resp = 200"
       "json_body resp = Some (JList (pages page))" "pages page \<noteq> []"
    by (meson order_refl)
  have f: "fetch_with_retry w (repos_request org hdrs page) 3 tr = (Inr resp, tr @ [Get (repos_request org hdrs page)])"
    using r by (intro fetch_with_retry_immediate) simp_all
  have step: "fetch_pages w org hdrs page acc tr =
      fetch_pages w org hdrs (Suc page) (acc @ pages page) (tr @ [Get (repos_request org hdrs page)])"
    by (subst fetch_pages.simps) (simp add: f r)
  have ih: "fetch_pages w org hdrs (Suc page) (acc @ pages page) (tr @ [Get (repos_request org hdrs page)]) =
      fetch_pages w org hdrs k ((acc @ pages page) @ concat (map pages [Suc page..<k]))
        ((tr @ [Get (repos_request org hdrs page)]) @ page_gets org hdrs (Suc page) k)"
    using Suc.hyps(2) Suc.prems lt by (intro Suc.hyps(1)) auto
  show ?case
    using lt by (simp add: step ih page_gets_step upt_conv_Cons)
qed

lemma page_of_repos_request [simp]: "page_of (repos_request org hdrs p) = p"
  by (simp add: page_of_def repos_request_def)

lemma three_pages_cases: "1 \<le> p \<Longrightarrow> p < 4 \<Longrightarrow> p = 1 \<or> p = 2 \<or> p = (3::nat)"
  by arith

text \<open>
  Claim C4. Let the remote serve the list pages \<open>1, ..., k - 1\<close> with status 200 and the
  non-empty item lists \<open>pages 1, ..., pages (k - 1)\<close>, and page \<open>k\<close> with status 200 and
  an empty list. Then \<open>_fetch_all_repos\<close> returns, issues exactly the requests for the
  pages \<open>1, ..., k\<close> in this order and nothing else, each with \<open>per_page = 100\<close>, and
  returns the items of the pages before \<open>k\<close>, concatenated in page order. For pages of
  100, 100 and 37 items and an empty fourth page that makes 237 items and 4 requests.
\<close>

theorem fetch_all_repos_collects:
  assumes "\<forall>h p. 1 \<le> p \<and> p < k \<longrightarrow>
      (\<exists>resp. respond w h (repos_request org hdrs p) = Inr resp \<and> status resp = 200 \<and>
         json_body resp = Some (JList (pages p)) \<and> pages p \<noteq> [])"
    and "\<forall>h. \<exists>resp. respond w h (repos_request org hdrs k) = Inr resp \<and> status resp = 200 \<and>
         json_body resp = Some (JList [])"
    and "1 \<le> k"
  shows "fetch_all_repos w org hdrs tr =
           Some (Inr (concat (map pages [1..<k])),
                 tr @ map (\<lambda>p. Get (repos_request org hdrs p)) [1..<Suc k])
         \<and> (\<forall>p. params (repos_request org hdrs p) =
                  Some [(''per_page'', JNum 100), (''page'', JNum (int p))])
         \<and> (k = 4 \<and> length (pages 1) = 100 \<and> length (pages 2) = 100 \<and> length (pages 3) = 37
              \<longrightarrow> (\<exists>items tr'. fetch_all_repos w org hdrs tr = Some (Inr items, tr @ tr')
                     \<and> length items = 237 \<and> length tr' = 4 \<and> gets tr' = 4))"
proof -
  let ?tr = "tr @ page_gets org hdrs 1 k"
  from assms(2) obtain resp where
    r: "respond w ?tr (repos_request org hdrs k) = Inr resp" "status resp = 200"
       "json_body resp = Some (JList [])" by blast
  have f: "fetch_with_retry w (repos_request org hdrs k) 3 ?tr =
             (Inr resp, ?tr @ [Get (repos_request org hdrs k)])"
    using r by (intro fetch_with_retry_immediate) simp_all
  have "fetch_all_repos w org hdrs tr =
          fetch_pages w org hdrs k ([] @ concat (map pages [1..<k])) ?tr"
    unfolding fetch_all_repos_def using assms(1,3) by (intro fetch_pages_prefix) auto
  also have "\<dots> = Some (Inr (concat (map pages [1..<k])), ?tr @ [Get (repos_request org hdrs k)])"
    using f r by (subst fetch_pages.simps) simp
  also have "?tr @ [Get (repos_request org hdrs k)] = tr @ page_gets org hdrs 1 (Suc k)"
    using assms(3) by (simp add: page_gets_def)
  finally have main: "fetch_all_repos w org hdrs tr =
           Some (Inr (concat (map pages [1..<k])),
                 tr @ map (\<lambda>p. Get (repos_request org hdrs p)) [1..<Suc k])"
    by (simp add: page_gets_def)
  have four: "[Suc 0..<4] = [1, 2, 3]" "[Suc 0..<5] = [1, 2, 3, 4]"
    by (simp_all add: upt_conv_Cons)
  have inst: "\<exists>items tr'. fetch_all_repos w org hdrs tr = Some (Inr items, tr @ tr')
                     \<and> length items = 237 \<and> length tr' = 4 \<and> gets tr' = 4"
    if "k = 4" "length (pages 1) = 100" "length (pages 2) = 100" "length (pages 3) = 37"
    using main that by (simp add: four)
  show ?thesis
    using main inst by (simp add: repos_request_def)
qed

theorem fetch_all_repos_collects_witness:
  "(\<forall>h. \<exists>resp. respond world_three_pages h (repos_request ''acme'' [] 4) = Inr resp \<and>
         status resp = 200 \<and> json_body resp = Some (JList []))
   \<and> (1::nat) \<le> 4
   \<and> (4 = (4::nat) \<and> length (three_pages 1) = 100 \<and> length (three_pages 2) = 100 \<and>
        length (three_pages 3) = 37)
   \<and> (\<exists>items tr'. fetch_all_repos world_three_pages ''acme'' [] [] = Some (Inr items, tr')
         \<and> length items = 237 \<and> length tr' = 4 \<and> gets tr' = 4)"
proof -
  have h1: "\<forall>h p. 1 \<le> p \<and> p < 4 \<longrightarrow>
      (\<exists>resp. respond world_three_pages h (repos_request ''acme'' [] p) = Inr resp \<and>
         status resp = 200 \<and> json_body resp = Some (JList (three_pages p)) \<and>
         three_pages p \<noteq> [])"
    using three_pages_cases
    by (auto simp: world_three_pages_def items_response_def three_pages_def)
  have h2: "\<forall>h. \<exists>resp. respond world_three_pages h (repos_request ''acme'' [] 4) = Inr resp \<and>
         status resp = 200 \<and> json_body resp = Some (JList [])"
    by (simp add: world_three_pages_def items_response_def three_pages_def)
  have h3: "(1::nat) \<le> 4" by simp
  have h4: "length (three_pages 1) = 100 \<and> length (three_pages 2) = 100 \<and>
        length (three_pages 3) = 37"
    by (simp add: three_pages_def)
  from fetch_all_repos_collects[OF h1 h2 h3, of "[]"]
  have "4 = (4::nat) \<and> length (three_pages 1) = 100 \<and> length (three_pages 2) = 100 \<and>
          length (three_pages 3) = 37
        \<longrightarrow> (\<exists>items tr'. fetch_all_repos world_three_pages ''acme'' [] [] =
               Some (Inr items, [] @ tr')
             \<and> length items = 237 \<and> length tr' = 4 \<and> gets tr' = 4)"
    by blast
  with h4 have "\<exists>items tr'. fetch_all_repos world_three_pages ''acme'' [] [] = Some (Inr items, tr')
         \<and> length items = 237 \<and> length tr' = 4 \<and> gets tr' = 4"
    by simp
  with h2 h4 show ?thesis by simp
qed

text \<open>
  Claim C7. Let the pages before page \<open>k\<close> have been served with status 200 and non-empty
  item lists, and let the executor hand back for page \<open>k\<close> a response whose status is
  not 200. Then \<open>_fetch_all_repos\<close> stops there, with no further request, and its result
  is an \<open>HTTPException\<close> and no list, so the items of the earlier pages are not
  returned: status 401 gives the detail for an invalid token, status 404 the detail for
  an unknown organization, any other status the generic detail with the response body.
\<close>

theorem fetch_all_repos_aborts:
  assumes "\<forall>h p. 1 \<le> p \<and> p < k \<longrightarrow>
      (\<exists>resp. respond w h (repos_request org hdrs p) = Inr resp \<and> status resp = 200 \<and>
         json_body resp = Some (JList (pages p)) \<and> pages p \<noteq> [])"
    and "fetch_with_retry w (repos_request org hdrs k) 3
           (tr @ map (\<lambda>p. Get (repos_request org hdrs p)) [1..<k]) = (Inr resp, tr')"
    and "status resp \<noteq> 200"
    and "1 \<le> k"
  shows "fetch_all_repos w org hdrs tr =
     Some (Inl (HTTPException (status resp)
        (if status resp = 401 then ''Invalid GitHub token.''
         else if status resp = 404 then
           ''Organization '' @ [CHR 0x27] @ org @ [CHR 0x27] @ '' not found.''
         else ''GitHub API error: '' @ text_body resp)), tr')"
proof -
  have "fetch_all_repos w org hdrs tr =
          fetch_pages w org hdrs k ([] @ concat (map pages [1..<k])) (tr @ page_gets org hdrs 1 k)"
    unfolding fetch_all_repos_def using assms(1,4) by (intro fetch_pages_prefix) auto
  also have "\<dots> = Some (Inl (HTTPException (status resp)
        (if status resp = 401 then ''Invalid GitHub token.''
         else if status resp = 404 then
           ''Organization '' @ [CHR 0x27] @ org @ [CHR 0x27] @ '' not found.''
         else ''GitHub API error: '' @ text_body resp)), tr')"
    using assms(2,3) by (subst fetch_pages.simps) (simp add: page_gets_def)
  finally show ?thesis .
qed

theorem fetch_all_repos_aborts_witness:
  "(\<forall>h. \<exists>resp. respond world_vanishing h (repos_request ''acme'' [] 1) = Inr resp \<and>
         status resp = 200 \<and> json_body resp = Some (JList [one_repo]))
   \<and> fetch_with_retry world_vanishing (repos_request ''acme'' [] 2) 3
           ([] @ map (\<lambda>p. Get (repos_request ''acme'' [] p)) [1..<2]) =
        (Inr (plain_response 404),
         [Get (repos_request ''acme'' [] 1), Get (repos_request ''acme'' [] 2)])
   \<and> status (plain_response 404) \<noteq> 200
   \<and> (1::nat) \<le> 2
   \<and> fetch_all_repos world_vanishing ''acme'' [] [] =
       Some (Inl (HTTPException 404 (''Organization '' @ [CHR 0x27] @ ''acme'' @ [CHR 0x27] @ '' not found.'')),
             [Get (repos_request ''acme'' [] 1), Get (repos_request ''acme'' [] 2)])"
proof -
  have h1: "\<forall>h p. 1 \<le> p \<and> p < 2 \<longrightarrow>
      (\<exists>resp. respond world_vanishing h (repos_request ''acme'' [] p) = Inr resp \<and>
         status resp = 200 \<and> json_body resp = Some (JList [one_repo]) \<and> [one_repo] \<noteq> [])"
  proof (intro allI impI)
    fix h :: "effect list" and p :: nat
    assume "1 \<le> p \<and> p < 2"
    then have "p = 1" by arith
    then show "\<exists>resp. respond world_vanishing h (repos_request ''acme'' [] p) = Inr resp \<and>
         status resp = 200 \<and> json_body resp = Some (JList [one_repo]) \<and> [one_repo] \<noteq> []"
      by (simp add: world_vanishing_def items_response_def)
  qed
  have r: "respond world_vanishing h (repos_request ''acme'' [] 2) = Inr (plain_response 404)" for h
    by (simp add: world_vanishing_def)
  have h2: "fetch_with_retry world_vanishing (repos_request ''acme'' [] 2) 3
           ([] @ map (\<lambda>p. Get (repos_request ''acme'' [] p)) [1..<2]) =
        (Inr (plain_response 404),
         [Get (repos_request ''acme'' [] 1), Get (repos_request ''acme'' [] 2)])"
    using fetch_with_retry_immediate[OF r, where n = 3 and tr = "[Get (repos_request ''acme'' [] 1)]"]
    by (simp add: plain_response_def upt_conv_Cons)
  have h3: "status (plain_response 404) \<noteq> 200" by (simp add: plain_response_def)
  have h4: "(1::nat) \<le> 2" by simp
  from fetch_all_repos_aborts[OF h1 h2 h3 h4]
  have "fetch_all_repos world_vanishing ''acme'' [] [] =
       Some (Inl (HTTPException 404 (''Organization '' @ [CHR 0x27] @ ''acme'' @ [CHR 0x27] @ '' not found.'')),
             [Get (repos_request ''acme'' [] 1), Get (repos_request ''acme'' [] 2)])"
    by (simp add: plain_response_def)
  moreover have "\<forall>h. \<exists>resp. respond world_vanishing h (repos_request ''acme'' [] 1) = Inr resp \<and>
         status resp = 200 \<and> json_body resp = Some (JList [one_repo])"
    by (simp add: world_vanishing_def items_response_def)
  ultimately show ?thesis using h2 h3 by simp
qed

section \<open>Properties of the event streams\<close>

lemma progress_counts_append [simp]:
  "progress_counts (xs @ ys) = progress_counts xs @ progress_counts ys"
  by (induction xs rule: progress_counts.induct) simp_all

lemma list_progress_ok:
  "list_progress p ts = (evs, None) \<Longrightarrow>
     \<exists>rs. ts = map Inr rs \<and>
          evs = concat (map (\<lambda>(k, (name, found)). list_unit_events k name found) (enumerate p rs))"
proof (induction p ts arbitrary: evs rule: list_progress.induct)
  case (1 processed)
  then show ?case by simp
next
  case (2 processed e rest)
  then show ?case by simp
next
  case (3 processed repo_name found rest)
  from "3.prems" obtain evs' where
    r: "list_progress (processed + 1) rest = (evs', None)"
    and e: "evs = Progress repo_name (processed + 1) #
             (if found \<noteq> [] then [Data (JList found)] else []) @ evs'"
    by (auto split: prod.splits)
  from "3.IH"[OF r] obtain rs where rs: "rest = map Inr rs"
    "evs' = concat (map (\<lambda>(k, (name, found)). list_unit_events k name found)
                     (enumerate (processed + 1) rs))"
    by blast
  show ?case
    using e rs by (intro exI[of _ "(repo_name, found) # rs"]) (simp add: list_unit_events_def)
qed

lemma audit_progress_ok:
  "audit_progress p ts = (evs, None) \<Longrightarrow>
     \<exists>rs. ts = map (\<lambda>(ident, repo_data). Inr repo_data) rs \<and>
          (\<forall>(ident, repo_data) \<in> set rs. map_of repo_data ''repository'' = Some ident) \<and>
          evs = concat (map (\<lambda>(k, (ident, repo_data)). audit_unit_events k ident repo_data)
                          (enumerate p rs))"
proof (induction p ts arbitrary: evs rule: audit_progress.induct)
  case (1 processed)
  then show ?case by simp
next
  case (2 processed e rest)
  then show ?case by simp
next
  case (3 processed repo_data rest)
  from "3.prems" obtain ident evs' where
    k: "map_of repo_data ''repository'' = Some ident"
    and r: "audit_progress (processed + 1) rest = (evs', None)"
    and e: "evs = Progress ident (processed + 1) # Data (JObj repo_data) # evs'"
    by (auto split: option.splits prod.splits)
  from "3.IH"[OF k r] obtain rs where rs: "rest = map (\<lambda>(ident, repo_data). Inr repo_data) rs"
    "\<forall>(ident, repo_data) \<in> set rs. map_of repo_data ''repository'' = Some ident"
    "evs' = concat (map (\<lambda>(k, (ident, repo_data)). audit_unit_events k ident repo_data)
                     (enumerate (processed + 1) rs))"
    by blast
  show ?case
    using e rs k
    by (intro exI[of _ "(ident, repo_data) # rs"]) (simp add: audit_unit_events_def)
qed

lemma stream_access_eq: "stream_access w scan order tok org = stream_branches w scan order tok org"
  by (simp add: stream_access_def stream_branches_def)

lemma stream_branches_started:
  assumes "stream_branches w scan order tok org = Some (Start n # rest, r)"
  shows "\<exists>all_repos tr names evs.
           fetch_all_repos w org (gh_headers tok) [] = Some (Inr all_repos, tr) \<and>
           repo_names all_repos = Inr names \<and> n = length names \<and>
           list_progress 0 (as_completed order
              (map (\<lambda>(i, name). scan_one scan i name) (enumerate 0 names))) = (evs, r) \<and>
           rest = evs @ (if r = None then [Done] else [])"
  using assms unfolding stream_branches_def
  by (auto simp: Let_def split: option.splits sum.splits py_error.splits prod.splits)

lemma stream_audit_repos_started:
  assumes "stream_audit_repos w process_one order tok org = Some (Start n # rest, r)"
  shows "\<exists>all_repos tr.
           fetch_all_repos w org (gh_headers tok) [] = Some (Inr all_repos, tr) \<and>
           n = length all_repos \<and>
           ((\<exists>e. task_names all_repos = Inl e \<and> rest = [] \<and> r = Some e) \<or>
            (\<exists>names evs. task_names all_repos = Inr names \<and>
                audit_progress 0 (as_completed order
                   (map (\<lambda>(i, repo). process_one i repo) (enumerate 0 all_repos))) = (evs, r) \<and>
                rest = evs @ (if r = None then [Done] else [])))"
  using assms unfolding stream_audit_repos_def
  by (auto simp: Let_def split: option.splits sum.splits py_error.splits prod.splits)

lemma progress_idents_append [simp]:
  "progress_idents (xs @ ys) = progress_idents xs @ progress_idents ys"
  by (induction xs rule: progress_idents.induct) simp_all

lemma perm_upt_facts:
  assumes "mset order = mset [0..<n]"
  shows "length order = n" and "set order = {0..<n}"
proof -
  from assms have "size (mset order) = size (mset [0..<n])" by simp
  then show "length order = n" by simp
  from assms have "set_mset (mset order) = set_mset (mset [0..<n])" by simp
  then show "set order = {0..<n}" by simp
qed

lemma filter_length_perm:
  assumes "mset order = mset [0..<n]"
  shows "length (filter P order) = length (filter P [0..<n])"
proof -
  have "mset (filter P order) = mset (filter P [0..<n])"
    using assms by (simp only: mset_filter)
  then show ?thesis by (metis size_mset)
qed

lemma as_completed_enumerate:
  assumes "\<forall>i \<in> set order. i < length xs"
  shows "as_completed order (map (\<lambda>(i, x). f i x) (enumerate 0 xs)) =
         map (\<lambda>i. f i (xs ! i)) order"
  using assms by (simp add: as_completed_def nth_enumerate_eq)

lemma list_progress_all_Inr:
  "list_progress p ts = (evs, None) \<Longrightarrow> \<forall>t \<in> set ts. \<exists>x. t = Inr x"
  by (drule list_progress_ok) auto

lemma audit_progress_all_ok:
  "audit_progress p ts = (evs, None) \<Longrightarrow>
     \<forall>t \<in> set ts. \<exists>d ident. t = Inr d \<and> map_of d ''repository'' = Some ident"
  by (drule audit_progress_ok) force

lemma list_progress_closed:
  assumes "\<forall>i \<in> set order. scan i (nm i) = Inr (found i)"
  shows "list_progress p (map (\<lambda>i. scan_one scan i (nm i)) order) =
     (concat (map (\<lambda>(k, i). list_unit_events k (nm i) (found i)) (enumerate p order)), None)"
  using assms
  by (induction order arbitrary: p) (simp_all add: scan_one_def list_unit_events_def)

lemma audit_progress_closed:
  assumes "\<forall>i \<in> set order. task i = Inr (data i) \<and> map_of (data i) ''repository'' = Some (ident i)"
  shows "audit_progress p (map task order) =
     (concat (map (\<lambda>(k, i). audit_unit_events k (ident i) (data i)) (enumerate p order)), None)"
  using assms
  by (induction order arbitrary: p) (simp_all add: audit_unit_events_def)

lemma data_count_list_units:
  "length (filter is_data (concat (map (\<lambda>(k, i). list_unit_events k (nm i) (found i))
      (enumerate p order)))) = length (filter (\<lambda>i. found i \<noteq> []) order)"
  by (induction order arbitrary: p) (simp_all add: list_unit_events_def)

lemma data_count_audit_units:
  "length (filter is_data (concat (map (\<lambda>(k, i). audit_unit_events k (ident i) (data i))
      (enumerate p order)))) = length order"
  by (induction order arbitrary: p) (simp_all add: audit_unit_events_def)

lemma progress_counts_list_closed:
  "progress_counts (concat (map (\<lambda>(k, i). list_unit_events k (nm i) (found i))
      (enumerate p order))) = [Suc p..<Suc (p + length order)]"
  by (induction order arbitrary: p)
     (simp_all add: list_unit_events_def upt_conv_Cons del: upt_Suc)

lemma progress_counts_audit_closed:
  "progress_counts (concat (map (\<lambda>(k, i). audit_unit_events k (ident i) (data i))
      (enumerate p order))) = [Suc p..<Suc (p + length order)]"
  by (induction order arbitrary: p)
     (simp_all add: audit_unit_events_def upt_conv_Cons del: upt_Suc)

lemma progress_idents_list_closed:
  "progress_idents (concat (map (\<lambda>(k, i). list_unit_events k (nm i) (found i))
      (enumerate p order))) = map nm order"
  by (induction order arbitrary: p) (simp_all add: list_unit_events_def)

lemma done_not_in_list_closed:
  "Done \<notin> set (concat (map (\<lambda>(k, i). list_unit_events k (nm i) (found i)) kis))"
  by (auto simp: list_unit_events_def)

lemma done_not_in_audit_closed:
  "Done \<notin> set (concat (map (\<lambda>(k, i). audit_unit_events k (ident i) (data i)) kis))"
  by (auto simp: audit_unit_events_def)

text \<open>The whole stream of a run of \<open>stream_branches\<close> that ends normally after \<open>start\<close>.\<close>

lemma stream_branches_closed:
  assumes run: "stream_branches w scan order tok org = Some (Start n # rest, None)"
    and perm: "mset order = mset [0..<n]"
  shows "\<exists>all_repos tr names found.
           fetch_all_repos w org (gh_headers tok) [] = Some (Inr all_repos, tr) \<and>
           repo_names all_repos = Inr names \<and> length names = n \<and>
           (\<forall>i < n. scan i (names ! i) = Inr (found i)) \<and>
           rest = concat (map (\<lambda>(k, i). list_unit_events k (names ! i) (found i))
                           (enumerate 0 order)) @ [Done]"
proof -
  from stream_branches_started[OF run] obtain all_repos tr names evs where
    f: "fetch_all_repos w org (gh_headers tok) [] = Some (Inr all_repos, tr)"
    and nm: "repo_names all_repos = Inr names" and n: "n = length names"
    and lp: "list_progress 0 (as_completed order
              (map (\<lambda>(i, name). scan_one scan i name) (enumerate 0 names))) = (evs, None)"
    and rest: "rest = evs @ [Done]"
    by auto
  have in_range: "\<forall>i \<in> set order. i < length names"
    using perm_upt_facts(2)[OF perm] n by simp
  have ts: "as_completed order (map (\<lambda>(i, name). scan_one scan i name) (enumerate 0 names)) =
            map (\<lambda>i. scan_one scan i (names ! i)) order"
    by (rule as_completed_enumerate[OF in_range])
  define found where "found i = (case scan i (names ! i) of Inr f \<Rightarrow> f | Inl e \<Rightarrow> [])" for i
  have ok: "scan i (names ! i) = Inr (found i)" if "i \<in> set order" for i
  proof -
    from list_progress_all_Inr[OF lp[unfolded ts]] that
    obtain x where "scan_one scan i (names ! i) = Inr x" by auto
    then show ?thesis
      by (auto simp: scan_one_def found_def split: sum.splits)
  qed
  have "list_progress 0 (map (\<lambda>i. scan_one scan i (names ! i)) order) =
     (concat (map (\<lambda>(k, i). list_unit_events k (names ! i) (found i)) (enumerate 0 order)), None)"
    by (rule list_progress_closed) (simp add: ok)
  with lp ts have "evs = concat (map (\<lambda>(k, i). list_unit_events k (names ! i) (found i))
                           (enumerate 0 order))" by simp
  moreover have "\<forall>i < n. scan i (names ! i) = Inr (found i)"
    using ok perm_upt_facts(2)[OF perm] by simp
  ultimately show ?thesis using f nm n rest by blast
qed

lemma stream_audit_repos_closed:
  assumes run: "stream_audit_repos w process_one order tok org = Some (Start n # rest, None)"
    and perm: "mset order = mset [0..<n]"
  shows "\<exists>all_repos tr data ident.
           fetch_all_repos w org (gh_headers tok) [] = Some (Inr all_repos, tr) \<and>
           length all_repos = n \<and>
           (\<forall>i < n. process_one i (all_repos ! i) = Inr (data i) \<and>
                    map_of (data i) ''repository'' = Some (ident i)) \<and>
           rest = concat (map (\<lambda>(k, i). audit_unit_events k (ident i) (data i))
                           (enumerate 0 order)) @ [Done]"
proof -
  from stream_audit_repos_started[OF run] obtain all_repos tr evs where
    f: "fetch_all_repos w org (gh_headers tok) [] = Some (Inr all_repos, tr)"
    and n: "n = length all_repos"
    and lp: "audit_progress 0 (as_completed order
              (map (\<lambda>(i, repo). process_one i repo) (enumerate 0 all_repos))) = (evs, None)"
    and rest: "rest = evs @ [Done]"
    by auto
  have in_range: "\<forall>i \<in> set order. i < length all_repos"
    using perm_upt_facts(2)[OF perm] n by simp
  have ts: "as_completed order (map (\<lambda>(i, repo). process_one i repo) (enumerate 0 all_repos)) =
            map (\<lambda>i. process_one i (all_repos ! i)) order"
    by (rule as_completed_enumerate[OF in_range])
  define data where
    "data i = (case process_one i (all_repos ! i) of Inr d \<Rightarrow> d | Inl e \<Rightarrow> [])" for i
  define ident where
    "ident i = (case map_of (data i) ''repository'' of Some v \<Rightarrow> v | None \<Rightarrow> JNull)" for i
  have ok: "process_one i (all_repos ! i) = Inr (data i) \<and>
            map_of (data i) ''repository'' = Some (ident i)" if "i \<in> set order" for i
  proof -
    from audit_progress_all_ok[OF lp[unfolded ts]] that
    obtain d v where "process_one i (all_repos ! i) = Inr d" "map_of d ''repository'' = Some v"
      by auto
    then show ?thesis by (simp add: data_def ident_def)
  qed
  have "audit_progress 0 (map (\<lambda>i. process_one i (all_repos ! i)) order) =
     (concat (map (\<lambda>(k, i). audit_unit_events k (ident i) (data i)) (enumerate 0 order)), None)"
    by (rule audit_progress_closed) (simp add: ok)
  with lp ts have "evs = concat (map (\<lambda>(k, i). audit_unit_events k (ident i) (data i))
                           (enumerate 0 order))" by simp
  moreover have "\<forall>i < n. process_one i (all_repos ! i) = Inr (data i) \<and>
                    map_of (data i) ''repository'' = Some (ident i)"
    using ok perm_upt_facts(2)[OF perm] by simp
  ultimately show ?thesis using f n rest by blast
qed

lemma repo_names_filter:
  "repo_names rs = Inr names \<Longrightarrow> names = map repo_name (filter (\<lambda>x. \<not> is_archived x) rs)"
proof (induction rs arbitrary: names)
  case Nil
  then show ?case by simp
next
  case (Cons r rs)
  then show ?case
    by (auto simp: is_archived_def repo_name_def split: sum.splits if_splits)
qed

lemma fetch_all_repos_first_page_fails:
  assumes "respond w [] (repos_request org hdrs 1) = Inr resp"
    and "status resp \<noteq> 200" and "status resp \<noteq> 403"
  shows "fetch_all_repos w org hdrs [] =
     Some (Inl (HTTPException (status resp)
        (if status resp = 401 then ''Invalid GitHub token.''
         else if status resp = 404 then
           ''Organization '' @ [CHR 0x27] @ org @ [CHR 0x27] @ '' not found.''
         else ''GitHub API error: '' @ text_body resp)), [Get (repos_request org hdrs 1)])"
proof -
  have "fetch_with_retry w (repos_request org hdrs 1) 3 [] =
          (Inr resp, [] @ [Get (repos_request org hdrs 1)])"
    using assms(1,3) by (rule fetch_with_retry_immediate)
  then show ?thesis
    using assms(2) unfolding fetch_all_repos_def
    by (subst fetch_pages.simps) simp
qed

lemma fetch_all_repos_one_page:
  assumes "\<forall>h. \<exists>resp. respond w h (repos_request org hdrs 1) = Inr resp \<and> status resp = 200 \<and>
             json_body resp = Some (JList items)"
    and "\<forall>h. \<exists>resp. respond w h (repos_request org hdrs 2) = Inr resp \<and> status resp = 200 \<and>
             json_body resp = Some (JList [])"
    and "items \<noteq> []"
  shows "fetch_all_repos w org hdrs [] =
     Some (Inr items, [Get (repos_request org hdrs 1), Get (repos_request org hdrs 2)])"
proof -
  let ?r1 = "repos_request org hdrs 1" and ?r2 = "repos_request org hdrs 2"
  from assms(1) obtain r1 where r1: "respond w [] ?r1 = Inr r1" "status r1 = 200"
    "json_body r1 = Some (JList items)" by blast
  from assms(2) obtain r2 where r2: "respond w [Get ?r1] ?r2 = Inr r2" "status r2 = 200"
    "json_body r2 = Some (JList [])" by blast
  have f1: "fetch_with_retry w ?r1 3 [] = (Inr r1, [] @ [Get ?r1])"
    using r1 by (intro fetch_with_retry_immediate) simp_all
  have f2: "fetch_with_retry w ?r2 3 [Get ?r1] = (Inr r2, [Get ?r1] @ [Get ?r2])"
    using r2 by (intro fetch_with_retry_immediate) simp_all
  have "fetch_all_repos w org hdrs [] = fetch_pages w org hdrs 2 items [Get ?r1]"
    unfolding fetch_all_repos_def using f1 r1 assms(3)
    by (subst fetch_pages.simps) (simp add: numeral_2_eq_2)
  also have "\<dots> = Some (Inr items, [Get ?r1, Get ?r2])"
    using f2 r2 by (subst fetch_pages.simps) simp
  finally show ?thesis .
qed

lemma fetch_world_unauthorized:
  "fetch_all_repos world_unauthorized org hdrs [] =
     Some (Inl (HTTPException 401 ''Invalid GitHub token.''), [Get (repos_request org hdrs 1)])"
  using fetch_all_repos_first_page_fails[of world_unauthorized org hdrs "plain_response 401"]
  by (simp add: world_unauthorized_def plain_response_def)

lemma fetch_world_org:
  "fetch_all_repos world_org org hdrs [] =
     Some (Inr [one_repo, docs_repo, old_repo],
           [Get (repos_request org hdrs 1), Get (repos_request org hdrs 2)])"
  by (rule fetch_all_repos_one_page)
     (simp_all add: world_org_def items_response_def)

lemma run_branches_world_org:
  "stream_branches world_org branches_found [1, 0] tok org =
     Some (Start 2 # [Progress (JStr ''docs'') 1, Progress (JStr ''tool'') 2,
             Data (JList [JObj [(''branch_name'', JStr ''main'')]]), Done], None)"
  by (simp add: stream_branches_def fetch_world_org one_repo_def docs_repo_def old_repo_def
      as_completed_def scan_one_def branches_found_def)

lemma run_access_world_org:
  "stream_access world_org branches_found [1, 0] tok org =
     Some (Start 2 # [Progress (JStr ''docs'') 1, Progress (JStr ''tool'') 2,
             Data (JList [JObj [(''branch_name'', JStr ''main'')]]), Done], None)"
  unfolding stream_access_eq by (rule run_branches_world_org)

lemma run_audit_world_org:
  "stream_audit_repos world_org audit_found [2, 0, 1] tok org =
     Some (Start 3 #
       [Progress (JStr ''old'') 1,
        Data (JObj [(''repository'', JStr ''old''), (''owner'', JStr ''acme'')]),
        Progress (JStr ''tool'') 2,
        Data (JObj [(''repository'', JStr ''tool''), (''owner'', JStr ''acme'')]),
        Progress (JStr ''docs'') 3,
        Data (JObj [(''repository'', JStr ''docs''), (''owner'', JStr ''acme'')]),
        Done], None)"
  by (simp add: stream_audit_repos_def fetch_world_org as_completed_def audit_found_def
      repo_name_def one_repo_def docs_repo_def old_repo_def)

lemma perm_examples: "mset [1, 0] = mset [0..<2]" "mset [2, 0, 1] = mset [0..<3]"
  by (simp_all add: upt_conv_Cons)

lemma count_list_upt: "0 < n \<Longrightarrow> count_list [1..<Suc n] n = 1"
proof -
  assume "0 < n"
  then have "[1..<Suc n] = [1..<n] @ [n]" by simp
  moreover have "count_list [1..<n] n = 0"
    by (simp add: count_list_0_iff)
  ultimately show ?thesis by simp
qed

lemma count_list_append_Done:
  "Done \<notin> set xs \<Longrightarrow> count_list (Start n # xs @ [Done]) Done = 1"
  by (simp add: count_list_0_iff)

lemma counted_run:
  assumes "rest = body @ [Done]" and "Done \<notin> set body"
    and "progress_counts body = [1..<Suc n]"
  shows "progress_counts (Start n # rest) = [1..<Suc n]
       \<and> length (progress_counts (Start n # rest)) = n
       \<and> sorted_wrt (<) (progress_counts (Start n # rest))
       \<and> (0 < n \<longrightarrow> last (progress_counts (Start n # rest)) = n
                  \<and> count_list (progress_counts (Start n # rest)) n = 1)
       \<and> last (Start n # rest) = Done
       \<and> count_list (Start n # rest) Done = 1"
  using assms count_list_upt[of n] count_list_append_Done[of body n]
  by (simp del: upt_Suc count_list.simps)

lemma stream_audit_repos_runs:
  assumes f: "fetch_all_repos w org (gh_headers tok) [] = Some (Inr all_repos, tr)"
    and tn: "task_names all_repos = Inr keys"
    and ok: "\<forall>i < length all_repos. process_one i (all_repos ! i) = Inr (data i) \<and>
               map_of (data i) ''repository'' = Some (ident i)"
    and perm: "mset order = mset [0..<length all_repos]"
  shows "stream_audit_repos w process_one order tok org =
           Some (Start (length all_repos) #
                 concat (map (\<lambda>(k, i). audit_unit_events k (ident i) (data i))
                           (enumerate 0 order)) @ [Done], None)"
proof -
  have in_range: "\<forall>i \<in> set order. i < length all_repos"
    using perm_upt_facts(2)[OF perm] by simp
  have ts: "as_completed order (map (\<lambda>(i, repo). process_one i repo) (enumerate 0 all_repos)) =
            map (\<lambda>i. process_one i (all_repos ! i)) order"
    by (rule as_completed_enumerate[OF in_range])
  have "audit_progress 0 (map (\<lambda>i. process_one i (all_repos ! i)) order) =
     (concat (map (\<lambda>(k, i). audit_unit_events k (ident i) (data i)) (enumerate 0 order)), None)"
    by (rule audit_progress_closed) (use ok in_range in simp)
  with f tn ts show ?thesis by (simp add: stream_audit_repos_def)
qed

lemma stream_branches_runs:
  assumes f: "fetch_all_repos w org (gh_headers tok) [] = Some (Inr all_repos, tr)"
    and nm: "repo_names all_repos = Inr names"
    and ok: "\<forall>i < length names. scan i (names ! i) = Inr (found i)"
    and perm: "mset order = mset [0..<length names]"
  shows "stream_branches w scan order tok org =
           Some (Start (length names) #
                 concat (map (\<lambda>(k, i). list_unit_events k (names ! i) (found i))
                           (enumerate 0 order)) @ [Done], None)"
proof -
  have in_range: "\<forall>i \<in> set order. i < length names"
    using perm_upt_facts(2)[OF perm] by simp
  have ts: "as_completed order (map (\<lambda>(i, name). scan_one scan i name) (enumerate 0 names)) =
            map (\<lambda>i. scan_one scan i (names ! i)) order"
    by (rule as_completed_enumerate[OF in_range])
  have "list_progress 0 (map (\<lambda>i. scan_one scan i (names ! i)) order) =
     (concat (map (\<lambda>(k, i). list_unit_events k (names ! i) (found i)) (enumerate 0 order)), None)"
    by (rule list_progress_closed) (use ok in_range in simp)
  with f nm ts show ?thesis by (simp add: stream_branches_def)
qed

lemma units_return_audit:
  assumes "\<forall>i < n. \<exists>d v. process_one i (all_repos ! i) = Inr d \<and> map_of d ''repository'' = Some v"
  shows "\<exists>data ident. \<forall>i < n. process_one i (all_repos ! i) = Inr (data i) \<and>
            map_of (data i) ''repository'' = Some (ident i)"
  using assms by metis

lemma units_return_list:
  assumes "\<forall>i < n. \<exists>found. scan i (names ! i) = Inr found"
  shows "\<exists>found. \<forall>i < n. scan i (names ! i) = Inr (found i)"
  using assms by metis

lemma counted_audit_stream:
  assumes f: "fetch_all_repos w org (gh_headers tok) [] = Some (Inr all_repos, tr)"
    and tn: "task_names all_repos = Inr keys"
    and ok: "\<forall>i < length all_repos. \<exists>d v. process_one i (all_repos ! i) = Inr d \<and>
               map_of d ''repository'' = Some v"
    and perm: "mset order = mset [0..<length all_repos]"
  shows "\<exists>rest. stream_audit_repos w process_one order tok org =
                  Some (Start (length all_repos) # rest, None)
          \<and> progress_counts (Start (length all_repos) # rest) = [1..<Suc (length all_repos)]
          \<and> length (progress_counts (Start (length all_repos) # rest)) = length all_repos
          \<and> sorted_wrt (<) (progress_counts (Start (length all_repos) # rest))
          \<and> (0 < length all_repos \<longrightarrow>
               last (progress_counts (Start (length all_repos) # rest)) = length all_repos
             \<and> count_list (progress_counts (Start (length all_repos) # rest))
                 (length all_repos) = 1)
          \<and> last (Start (length all_repos) # rest) = Done
          \<and> count_list (Start (length all_repos) # rest) Done = 1"
proof -
  from units_return_audit[where process_one = process_one and all_repos = all_repos, OF ok]
  obtain data ident where
    ok': "\<forall>i < length all_repos. process_one i (all_repos ! i) = Inr (data i) \<and>
            map_of (data i) ''repository'' = Some (ident i)" by blast
  let ?body = "concat (map (\<lambda>(k, i). audit_unit_events k (ident i) (data i)) (enumerate 0 order))"
  have run: "stream_audit_repos w process_one order tok org =
               Some (Start (length all_repos) # ?body @ [Done], None)"
    using f tn ok' perm by (rule stream_audit_repos_runs)
  have len: "length order = length all_repos" by (rule perm_upt_facts(1)[OF perm])
  have "progress_counts (Start (length all_repos) # ?body @ [Done]) = [1..<Suc (length all_repos)]
       \<and> length (progress_counts (Start (length all_repos) # ?body @ [Done])) = length all_repos
       \<and> sorted_wrt (<) (progress_counts (Start (length all_repos) # ?body @ [Done]))
       \<and> (0 < length all_repos \<longrightarrow>
            last (progress_counts (Start (length all_repos) # ?body @ [Done])) = length all_repos
          \<and> count_list (progress_counts (Start (length all_repos) # ?body @ [Done]))
              (length all_repos) = 1)
       \<and> last (Start (length all_repos) # ?body @ [Done]) = Done
       \<and> count_list (Start (length all_repos) # ?body @ [Done]) Done = 1"
  proof (rule counted_run[OF refl])
    show "Done \<notin> set ?body" by (rule done_not_in_audit_closed)
    show "progress_counts ?body = [1..<Suc (length all_repos)]"
      using len progress_counts_audit_closed[of ident data 0 order] by simp
  qed
  with run show ?thesis by blast
qed

lemma counted_list_stream:
  assumes f: "fetch_all_repos w org (gh_headers tok) [] = Some (Inr all_repos, tr)"
    and nm: "repo_names all_repos = Inr names"
    and ok: "\<forall>i < length names. \<exists>found. scan i (names ! i) = Inr found"
    and perm: "mset order = mset [0..<length names]"
  shows "\<exists>rest. stream_branches w scan order tok org = Some (Start (length names) # rest, None)
          \<and> progress_counts (Start (length names) # rest) = [1..<Suc (length names)]
          \<and> length (progress_counts (Start (length names) # rest)) = length names
          \<and> sorted_wrt (<) (progress_counts (Start (length names) # rest))
          \<and> (0 < length names \<longrightarrow>
               last (progress_counts (Start (length names) # rest)) = length names
             \<and> count_list (progress_counts (Start (length names) # rest)) (length names) = 1)
          \<and> last (Start (length names) # rest) = Done
          \<and> count_list (Start (length names) # rest) Done = 1"
proof -
  from units_return_list[where scan = scan and names = names, OF ok]
  obtain found where
    ok': "\<forall>i < length names. scan i (names ! i) = Inr (found i)" by blast
  let ?body = "concat (map (\<lambda>(k, i). list_unit_events k (names ! i) (found i)) (enumerate 0 order))"
  have run: "stream_branches w scan order tok org =
               Some (Start (length names) # ?body @ [Done], None)"
    using f nm ok' perm by (rule stream_branches_runs)
  have len: "length order = length names" by (rule perm_upt_facts(1)[OF perm])
  have "progress_counts (Start (length names) # ?body @ [Done]) = [1..<Suc (length names)]
       \<and> length (progress_counts (Start (length names) # ?body @ [Done])) = length names
       \<and> sorted_wrt (<) (progress_counts (Start (length names) # ?body @ [Done]))
       \<and> (0 < length names \<longrightarrow>
            last (progress_counts (Start (length names) # ?body @ [Done])) = length names
          \<and> count_list (progress_counts (Start (length names) # ?body @ [Done]))
              (length names) = 1)
       \<and> last (Start (length names) # ?body @ [Done]) = Done
       \<and> count_list (Start (length names) # ?body @ [Done]) Done = 1"
  proof (rule counted_run[OF refl])
    show "Done \<notin> set ?body" by (rule done_not_in_list_closed)
    show "progress_counts ?body = [1..<Suc (length names)]"
      using len progress_counts_list_closed[of "\<lambda>i. names ! i" found 0 order] by simp
  qed
  with run show ?thesis by blast
qed

text \<open>
  Claim C5. Let \<open>_fetch_all_repos\<close> return the list \<open>all_repos\<close>, let every unit return
  its result, and let the tasks complete in any order. Then \<open>stream_audit_repos\<close> (one
  unit for each repository, every repository having a name), \<open>stream_branches\<close> and
  \<open>stream_access\<close> (one unit for each name the filter keeps) each produce a stream that
  ends normally and starts with \<open>start\<close> carrying the number \<open>n\<close> of units. The counts of
  its \<open>progress\<close> events are exactly \<open>1, 2, ..., n\<close> in this order: there are \<open>n\<close> of
  them, they increase strictly, and for \<open>n > 0\<close> the count \<open>n\<close> occurs once, at the last
  \<open>progress\<close> event (with no unit there is no \<open>progress\<close> event). \<open>done\<close> occurs once
  and is the last event, so every \<open>progress\<close> event comes before it.
\<close>

theorem progress_counts_of_successful_run:
  assumes "fetch_all_repos w org (gh_headers tok) [] = Some (Inr all_repos, tr)"
  shows "(task_names all_repos = Inr keys
          \<and> (\<forall>i < length all_repos. \<exists>d v. process_one i (all_repos ! i) = Inr d \<and>
                 map_of d ''repository'' = Some v)
          \<and> mset order = mset [0..<length all_repos] \<longrightarrow>
          (\<exists>rest. stream_audit_repos w process_one order tok org =
                    Some (Start (length all_repos) # rest, None)
            \<and> progress_counts (Start (length all_repos) # rest) = [1..<Suc (length all_repos)]
            \<and> length (progress_counts (Start (length all_repos) # rest)) = length all_repos
            \<and> sorted_wrt (<) (progress_counts (Start (length all_repos) # rest))
            \<and> (0 < length all_repos \<longrightarrow>
                 last (progress_counts (Start (length all_repos) # rest)) = length all_repos
               \<and> count_list (progress_counts (Start (length all_repos) # rest))
                   (length all_repos) = 1)
            \<and> last (Start (length all_repos) # rest) = Done
            \<and> count_list (Start (length all_repos) # rest) Done = 1))
       \<and> (repo_names all_repos = Inr names
          \<and> (\<forall>i < length names. \<exists>found. get_branch_details i (names ! i) = Inr found)
          \<and> mset order = mset [0..<length names] \<longrightarrow>
          (\<exists>rest. stream_branches w get_branch_details order tok org =
                    Some (Start (length names) # rest, None)
            \<and> progress_counts (Start (length names) # rest) = [1..<Suc (length names)]
            \<and> length (progress_counts (Start (length names) # rest)) = length names
            \<and> sorted_wrt (<) (progress_counts (Start (length names) # rest))
            \<and> (0 < length names \<longrightarrow>
                 last (progress_counts (Start (length names) # rest)) = length names
               \<and> count_list (progress_counts (Start (length names) # rest)) (length names) = 1)
            \<and> last (Start (length names) # rest) = Done
            \<and> count_list (Start (length names) # rest) Done = 1))
       \<and> (repo_names all_repos = Inr names
          \<and> (\<forall>i < length names. \<exists>found. get_repo_access i (names ! i) = Inr found)
          \<and> mset order = mset [0..<length names] \<longrightarrow>
          (\<exists>rest. stream_access w get_repo_access order tok org =
                    Some (Start (length names) # rest, None)
            \<and> progress_counts (Start (length names) # rest) = [1..<Suc (length names)]
            \<and> length (progress_counts (Start (length names) # rest)) = length names
            \<and> sorted_wrt (<) (progress_counts (Start (length names) # rest))
            \<and> (0 < length names \<longrightarrow>
                 last (progress_counts (Start (length names) # rest)) = length names
               \<and> count_list (progress_counts (Start (length names) # rest)) (length names) = 1)
            \<and> last (Start (length names) # rest) = Done
            \<and> count_list (Start (length names) # rest) Done = 1))"
  using counted_audit_stream[OF assms, of keys process_one order]
    counted_list_stream[OF assms, of names get_branch_details order]
    counted_list_stream[OF assms, of names get_repo_access order]
  unfolding stream_access_eq by blast

lemma task_names_world_org:
  "task_names [one_repo, docs_repo, old_repo] = Inr [JStr ''tool'', JStr ''docs'', JStr ''old'']"
  by (simp add: one_repo_def docs_repo_def old_repo_def)

lemma repo_names_world_org:
  "repo_names [one_repo, docs_repo, old_repo] = Inr [JStr ''tool'', JStr ''docs'']"
  by (simp add: one_repo_def docs_repo_def old_repo_def)

lemma audit_found_world_org:
  "\<forall>i < length [one_repo, docs_repo, old_repo].
     \<exists>d v. audit_found i ([one_repo, docs_repo, old_repo] ! i) = Inr d \<and>
           map_of d ''repository'' = Some v"
  by (simp add: audit_found_def)

lemma branches_found_world_org:
  "\<forall>i < length [JStr ''tool'', JStr ''docs''].
     \<exists>found. branches_found i ([JStr ''tool'', JStr ''docs''] ! i) = Inr found"
  by (simp add: branches_found_def)

theorem progress_counts_of_successful_run_witness:
  "fetch_all_repos world_org ''acme'' (gh_headers ''t'') [] =
       Some (Inr [one_repo, docs_repo, old_repo],
             [Get (repos_request ''acme'' (gh_headers ''t'') 1),
              Get (repos_request ''acme'' (gh_headers ''t'') 2)])
   \<and> mset [2, 0, 1] = mset [0..<3] \<and> mset [1, 0] = mset [0..<2]
   \<and> (\<exists>rest. stream_audit_repos world_org audit_found [2, 0, 1] ''t'' ''acme'' =
                Some (Start 3 # rest, None)
        \<and> progress_counts (Start 3 # rest) = [1, 2, 3]
        \<and> last (Start 3 # rest) = Done \<and> count_list (Start 3 # rest) Done = 1)
   \<and> (\<exists>rest. stream_branches world_org branches_found [1, 0] ''t'' ''acme'' =
                Some (Start 2 # rest, None)
        \<and> progress_counts (Start 2 # rest) = [1, 2]
        \<and> last (Start 2 # rest) = Done \<and> count_list (Start 2 # rest) Done = 1)
   \<and> (\<exists>rest. stream_access world_org branches_found [1, 0] ''t'' ''acme'' =
                Some (Start 2 # rest, None)
        \<and> progress_counts (Start 2 # rest) = [1, 2]
        \<and> last (Start 2 # rest) = Done \<and> count_list (Start 2 # rest) Done = 1)"
proof -
  note f = fetch_world_org[of "''acme''" "gh_headers ''t''"]
  note audit = progress_counts_of_successful_run[OF f,
      where keys = "[JStr ''tool'', JStr ''docs'', JStr ''old'']"
        and process_one = audit_found and order = "[2, 0, 1]"
        and names = "[JStr ''tool'', JStr ''docs'']"
        and get_branch_details = branches_found and get_repo_access = branches_found]
  note lists = progress_counts_of_successful_run[OF f,
      where keys = "[JStr ''tool'', JStr ''docs'', JStr ''old'']"
        and process_one = audit_found and order = "[1, 0]"
        and names = "[JStr ''tool'', JStr ''docs'']"
        and get_branch_details = branches_found and get_repo_access = branches_found]
  have p3: "mset [2, 0, 1] = mset [0..<length [one_repo, docs_repo, old_repo]]"
    by (simp add: upt_conv_Cons)
  have p2: "mset [1, 0] = mset [0..<length [JStr ''tool'', JStr ''docs'']]"
    by (simp add: upt_conv_Cons)
  have n3: "[1..<Suc 3] = [1, 2, 3]" and n2: "[1..<Suc 2] = [1, 2]"
    by (simp_all add: upt_conv_Cons del: upt_Suc)
  have l3: "length [one_repo, docs_repo, old_repo] = 3"
    and l2: "length [JStr ''tool'', JStr ''docs''] = 2"
    by simp_all
  from audit[THEN conjunct1, THEN mp,
      OF conjI[OF task_names_world_org conjI[OF audit_found_world_org p3]]]
  obtain rest1 where
    "stream_audit_repos world_org audit_found [2, 0, 1] ''t'' ''acme'' =
       Some (Start (length [one_repo, docs_repo, old_repo]) # rest1, None)"
    "progress_counts (Start (length [one_repo, docs_repo, old_repo]) # rest1) =
       [1..<Suc (length [one_repo, docs_repo, old_repo])]"
    "last (Start (length [one_repo, docs_repo, old_repo]) # rest1) = Done"
    "count_list (Start (length [one_repo, docs_repo, old_repo]) # rest1) Done = 1"
    by blast
  then have one: "\<exists>rest. stream_audit_repos world_org audit_found [2, 0, 1] ''t'' ''acme'' =
                Some (Start 3 # rest, None)
        \<and> progress_counts (Start 3 # rest) = [1, 2, 3]
        \<and> last (Start 3 # rest) = Done \<and> count_list (Start 3 # rest) Done = 1"
    unfolding l3 n3 by blast
  from lists[THEN conjunct2, THEN conjunct1, THEN mp,
      OF conjI[OF repo_names_world_org conjI[OF branches_found_world_org p2]]]
  obtain rest2 where
    "stream_branches world_org branches_found [1, 0] ''t'' ''acme'' =
       Some (Start (length [JStr ''tool'', JStr ''docs'']) # rest2, None)"
    "progress_counts (Start (length [JStr ''tool'', JStr ''docs'']) # rest2) =
       [1..<Suc (length [JStr ''tool'', JStr ''docs''])]"
    "last (Start (length [JStr ''tool'', JStr ''docs'']) # rest2) = Done"
    "count_list (Start (length [JStr ''tool'', JStr ''docs'']) # rest2) Done = 1"
    by blast
  then have two: "\<exists>rest. stream_branches world_org branches_found [1, 0] ''t'' ''acme'' =
                Some (Start 2 # rest, None)
        \<and> progress_counts (Start 2 # rest) = [1, 2]
        \<and> last (Start 2 # rest) = Done \<and> count_list (Start 2 # rest) Done = 1"
    unfolding l2 n2 by blast
  from lists[THEN conjunct2, THEN conjunct2, THEN mp,
      OF conjI[OF repo_names_world_org conjI[OF branches_found_world_org p2]]]
  obtain rest3 where
    "stream_access world_org branches_found [1, 0] ''t'' ''acme'' =
       Some (Start (length [JStr ''tool'', JStr ''docs'']) # rest3, None)"
    "progress_counts (Start (length [JStr ''tool'', JStr ''docs'']) # rest3) =
       [1..<Suc (length [JStr ''tool'', JStr ''docs''])]"
    "last (Start (length [JStr ''tool'', JStr ''docs'']) # rest3) = Done"
    "count_list (Start (length [JStr ''tool'', JStr ''docs'']) # rest3) Done = 1"
    by blast
  then have three: "\<exists>rest. stream_access world_org branches_found [1, 0] ''t'' ''acme'' =
                Some (Start 2 # rest, None)
        \<and> progress_counts (Start 2 # rest) = [1, 2]
        \<and> last (Start 2 # rest) = Done \<and> count_list (Start 2 # rest) Done = 1"
    unfolding l2 n2 by blast
  from f perm_examples one two three show ?thesis by blast
qed

text \<open>
  Claim C8. When \<open>_fetch_all_repos\<close> fails with an \<open>HTTPException\<close>, each of the three
  streams consists of the single event \<open>error\<close> with the detail of the exception, and
  the generator ends normally: no \<open>start\<close>, \<open>progress\<close>, \<open>data\<close> or \<open>done\<close>.
\<close>

theorem stream_error_only:
  assumes "fetch_all_repos w gh_org (gh_headers gh_token) [] =
             Some (Inl (HTTPException code detail), tr)"
  shows "stream_audit_repos w process_one order gh_token gh_org = Some ([Error detail], None)
       \<and> stream_branches w get_branch_details order gh_token gh_org = Some ([Error detail], None)
       \<and> stream_access w get_repo_access order gh_token gh_org = Some ([Error detail], None)"
  using assms by (simp add: stream_audit_repos_def stream_branches_def stream_access_def)

theorem stream_error_only_witness:
  "fetch_all_repos world_unauthorized ''acme'' (gh_headers ''t'') [] =
     Some (Inl (HTTPException 401 ''Invalid GitHub token.''),
           [Get (repos_request ''acme'' (gh_headers ''t'') 1)])
   \<and> stream_audit_repos world_unauthorized audit_found [] ''t'' ''acme'' =
       Some ([Error ''Invalid GitHub token.''], None)
   \<and> stream_branches world_unauthorized branches_found [] ''t'' ''acme'' =
       Some ([Error ''Invalid GitHub token.''], None)
   \<and> stream_access world_unauthorized branches_found [] ''t'' ''acme'' =
       Some ([Error ''Invalid GitHub token.''], None)"
  using stream_error_only[OF fetch_world_unauthorized, where process_one = audit_found
      and order = "[]" and get_branch_details = branches_found
      and get_repo_access = branches_found and gh_org = "''acme''" and gh_token = "''t''"]
    fetch_world_unauthorized[of "''acme''" "gh_headers ''t''"]
  by simp

text \<open>
  Claim C6. In a run that ends normally after \<open>start\<close>, every task returned a result, and
  the stream after \<open>start\<close> is, for the tasks in completion order, the \<open>progress\<close> event
  of the task, followed at once by its \<open>data\<close> event exactly when its result is not
  empty, and then \<open>done\<close>. In \<open>stream_branches\<close> and \<open>stream_access\<close> the result is the
  list found, so the number of \<open>data\<close> events is the number of units with a non-empty
  list. In \<open>stream_audit_repos\<close> the result is a dict that has the key
  \<open>repository\<close>, hence never empty, and every \<open>progress\<close> is followed by \<open>data\<close>.
\<close>

theorem data_follows_progress_iff_result:
  assumes "mset order = mset [0..<n]"
  shows "(stream_branches w get_branch_details order tok org = Some (Start n # rest, None) \<longrightarrow>
           (\<exists>names found.
              (\<forall>i < n. get_branch_details i (names ! i) = Inr (found i)) \<and>
              rest = concat (map (\<lambda>(k, i). Progress (names ! i) (Suc k) #
                                (if found i \<noteq> [] then [Data (JList (found i))] else []))
                           (enumerate 0 order)) @ [Done] \<and>
              length (filter is_data rest) = length (filter (\<lambda>i. found i \<noteq> []) [0..<n])))
       \<and> (stream_access w get_repo_access order tok org = Some (Start n # rest, None) \<longrightarrow>
           (\<exists>names found.
              (\<forall>i < n. get_repo_access i (names ! i) = Inr (found i)) \<and>
              rest = concat (map (\<lambda>(k, i). Progress (names ! i) (Suc k) #
                                (if found i \<noteq> [] then [Data (JList (found i))] else []))
                           (enumerate 0 order)) @ [Done] \<and>
              length (filter is_data rest) = length (filter (\<lambda>i. found i \<noteq> []) [0..<n])))
       \<and> (stream_audit_repos w process_one order tok org = Some (Start n # rest, None) \<longrightarrow>
           (\<exists>all_repos repo_data ident.
              (\<forall>i < n. process_one i (all_repos ! i) = Inr (repo_data i) \<and> repo_data i \<noteq> []) \<and>
              rest = concat (map (\<lambda>(k, i). [Progress (ident i) (Suc k), Data (JObj (repo_data i))])
                           (enumerate 0 order)) @ [Done] \<and>
              length (filter is_data rest) = n))"
proof -
  have lists: "\<exists>names found.
              (\<forall>i < n. scan i (names ! i) = Inr (found i)) \<and>
              rest = concat (map (\<lambda>(k, i). Progress (names ! i) (Suc k) #
                                (if found i \<noteq> [] then [Data (JList (found i))] else []))
                           (enumerate 0 order)) @ [Done] \<and>
              length (filter is_data rest) = length (filter (\<lambda>i. found i \<noteq> []) [0..<n])"
    if run: "stream_branches w scan order tok org = Some (Start n # rest, None)" for scan
  proof -
    from stream_branches_closed[OF run assms] obtain names found where
      ok: "\<forall>i < n. scan i (names ! i) = Inr (found i)"
      and r: "rest = concat (map (\<lambda>(k, i). list_unit_events k (names ! i) (found i))
                           (enumerate 0 order)) @ [Done]"
      by blast
    have "length (filter is_data rest) = length (filter (\<lambda>i. found i \<noteq> []) order)"
      unfolding r using data_count_list_units[of "\<lambda>i. names ! i" found 0 order] by simp
    also have "\<dots> = length (filter (\<lambda>i. found i \<noteq> []) [0..<n])"
      by (rule filter_length_perm[OF assms])
    finally have c: "length (filter is_data rest) = length (filter (\<lambda>i. found i \<noteq> []) [0..<n])" .
    from r have "rest = concat (map (\<lambda>(k, i). Progress (names ! i) (Suc k) #
                                (if found i \<noteq> [] then [Data (JList (found i))] else []))
                           (enumerate 0 order)) @ [Done]"
      by (simp add: list_unit_events_def)
    with ok c show ?thesis by blast
  qed
  have audit: "\<exists>all_repos repo_data ident.
              (\<forall>i < n. process_one i (all_repos ! i) = Inr (repo_data i) \<and> repo_data i \<noteq> []) \<and>
              rest = concat (map (\<lambda>(k, i). [Progress (ident i) (Suc k), Data (JObj (repo_data i))])
                           (enumerate 0 order)) @ [Done] \<and>
              length (filter is_data rest) = n"
    if run: "stream_audit_repos w process_one order tok org = Some (Start n # rest, None)"
  proof -
    from stream_audit_repos_closed[OF run assms] obtain all_repos data ident where
      ok: "\<forall>i < n. process_one i (all_repos ! i) = Inr (data i) \<and>
                    map_of (data i) ''repository'' = Some (ident i)"
      and r: "rest = concat (map (\<lambda>(k, i). audit_unit_events k (ident i) (data i))
                           (enumerate 0 order)) @ [Done]"
      by blast
    have ne: "\<forall>i < n. process_one i (all_repos ! i) = Inr (data i) \<and> data i \<noteq> []"
      using ok by auto
    have c: "length (filter is_data rest) = n"
      unfolding r using data_count_audit_units[of ident data 0 order]
        perm_upt_facts(1)[OF assms] by simp
    from r have "rest = concat (map (\<lambda>(k, i). [Progress (ident i) (Suc k), Data (JObj (data i))])
                           (enumerate 0 order)) @ [Done]"
      by (simp add: audit_unit_events_def)
    with ne c show ?thesis by blast
  qed
  show ?thesis
    using lists[of get_branch_details] lists[of get_repo_access] audit
    by (simp add: stream_access_eq)
qed

theorem data_follows_progress_iff_result_witness:
  "mset [1, 0] = mset [0..<2]
   \<and> stream_branches world_org branches_found [1, 0] ''t'' ''acme'' =
       Some (Start 2 # [Progress (JStr ''docs'') 1, Progress (JStr ''tool'') 2,
               Data (JList [JObj [(''branch_name'', JStr ''main'')]]), Done], None)
   \<and> stream_access world_org branches_found [1, 0] ''t'' ''acme'' =
       Some (Start 2 # [Progress (JStr ''docs'') 1, Progress (JStr ''tool'') 2,
               Data (JList [JObj [(''branch_name'', JStr ''main'')]]), Done], None)
   \<and> (\<exists>names found.
         branches_found 0 (names ! 0) = Inr (found 0) \<and>
         branches_found 1 (names ! 1) = Inr (found 1) \<and>
         length (filter is_data [Progress (JStr ''docs'') 1, Progress (JStr ''tool'') 2,
               Data (JList [JObj [(''branch_name'', JStr ''main'')]]), Done]) =
           length (filter (\<lambda>i. found i \<noteq> []) [0..<2]))
   \<and> mset [2, 0, 1] = mset [0..<3]
   \<and> (\<exists>rest. stream_audit_repos world_org audit_found [2, 0, 1] ''t'' ''acme'' =
                 Some (Start 3 # rest, None) \<and> length (filter is_data rest) = 3)"
proof -
  note b = run_branches_world_org[of "''t''" "''acme''"]
  note a = run_access_world_org[of "''t''" "''acme''"]
  note r = run_audit_world_org[of "''t''" "''acme''"]
  from data_follows_progress_iff_result[OF perm_examples(1), of world_org branches_found
      "''t''" "''acme''" _ branches_found audit_found] b
  obtain names found where
    "\<forall>i < 2. branches_found i (names ! i) = Inr (found i)"
    "length (filter is_data [Progress (JStr ''docs'') 1, Progress (JStr ''tool'') 2,
               Data (JList [JObj [(''branch_name'', JStr ''main'')]]), Done]) =
           length (filter (\<lambda>i. found i \<noteq> []) [0..<2])"
    by blast
  then have one: "\<exists>names found.
         branches_found 0 (names ! 0) = Inr (found 0) \<and>
         branches_found 1 (names ! 1) = Inr (found 1) \<and>
         length (filter is_data [Progress (JStr ''docs'') 1, Progress (JStr ''tool'') 2,
               Data (JList [JObj [(''branch_name'', JStr ''main'')]]), Done]) =
           length (filter (\<lambda>i. found i \<noteq> []) [0..<2])"
    by (intro exI[of _ names] exI[of _ found]) simp
  from data_follows_progress_iff_result[OF perm_examples(2), of world_org branches_found
      "''t''" "''acme''" _ branches_found audit_found] r
  have two: "\<exists>rest. stream_audit_repos world_org audit_found [2, 0, 1] ''t'' ''acme'' =
                 Some (Start 3 # rest, None) \<and> length (filter is_data rest) = 3"
    by blast
  from b a one two perm_examples show ?thesis by blast
qed

lemma progress_idents_audit_closed:
  "progress_idents (concat (map (\<lambda>(k, i). audit_unit_events k (ident i) (data i))
      (enumerate p order))) = map ident order"
  by (induction order arbitrary: p) (simp_all add: audit_unit_events_def)

lemma mset_map_perm:
  assumes "mset order = mset [0..<n]"
  shows "mset (map f order) = mset (map f [0..<n])"
proof -
  have "mset (map f order) = image_mset f (mset order)" by simp
  also have "\<dots> = image_mset f (mset [0..<n])" using assms by simp
  also have "\<dots> = mset (map f [0..<n])" by simp
  finally show ?thesis .
qed

text \<open>
  Claim C10. Whenever \<open>stream_branches\<close> or \<open>stream_access\<close> emits \<open>start\<close>, its total is
  the number of repositories whose \<open>archived\<close> entry is not truthy, the units are created
  from the names of exactly these repositories, and in a run that ends normally the
  identifiers of the \<open>progress\<close> events are these names. \<open>stream_audit_repos\<close> announces
  the number of all repositories, archived or not, and creates one unit for the
  repository at each position of the list, without a filter: in a run that ends normally
  each of these units has returned its dict, the stream is the \<open>progress\<close> and \<open>data\<close>
  events of these units in completion order, and the identifiers of the \<open>progress\<close>
  events are the \<open>repository\<close> entries of the dicts of all the repositories.
\<close>

theorem archived_repositories_excluded:
  assumes "mset order = mset [0..<n]"
  shows "(stream_branches w get_branch_details order tok org = Some (Start n # rest, r) \<longrightarrow>
           (\<exists>all_repos tr.
              fetch_all_repos w org (gh_headers tok) [] = Some (Inr all_repos, tr) \<and>
              n = length (filter (\<lambda>x. \<not> is_archived x) all_repos) \<and>
              repo_names all_repos =
                Inr (map repo_name (filter (\<lambda>x. \<not> is_archived x) all_repos)) \<and>
              (r = None \<longrightarrow> mset (progress_idents rest) =
                 mset (map repo_name (filter (\<lambda>x. \<not> is_archived x) all_repos)))))
       \<and> (stream_access w get_repo_access order tok org = Some (Start n # rest, r) \<longrightarrow>
           (\<exists>all_repos tr.
              fetch_all_repos w org (gh_headers tok) [] = Some (Inr all_repos, tr) \<and>
              n = length (filter (\<lambda>x. \<not> is_archived x) all_repos) \<and>
              repo_names all_repos =
                Inr (map repo_name (filter (\<lambda>x. \<not> is_archived x) all_repos)) \<and>
              (r = None \<longrightarrow> mset (progress_idents rest) =
                 mset (map repo_name (filter (\<lambda>x. \<not> is_archived x) all_repos)))))
       \<and> (stream_audit_repos w process_one order tok org = Some (Start n # rest, r) \<longrightarrow>
           (\<exists>all_repos tr.
              fetch_all_repos w org (gh_headers tok) [] = Some (Inr all_repos, tr) \<and>
              n = length all_repos \<and>
              (r = None \<longrightarrow>
                 (\<exists>repo_data ident.
                    (\<forall>i < length all_repos.
                        process_one i (all_repos ! i) = Inr (repo_data i) \<and>
                        map_of (repo_data i) ''repository'' = Some (ident i)) \<and>
                    rest = concat (map (\<lambda>(k, i). [Progress (ident i) (Suc k),
                                                   Data (JObj (repo_data i))])
                                    (enumerate 0 order)) @ [Done] \<and>
                    mset (progress_idents rest) = mset (map ident [0..<length all_repos]) \<and>
                    length (progress_counts rest) = length all_repos))))"
proof -
  have lists: "\<exists>all_repos tr.
              fetch_all_repos w org (gh_headers tok) [] = Some (Inr all_repos, tr) \<and>
              n = length (filter (\<lambda>x. \<not> is_archived x) all_repos) \<and>
              repo_names all_repos =
                Inr (map repo_name (filter (\<lambda>x. \<not> is_archived x) all_repos)) \<and>
              (r = None \<longrightarrow> mset (progress_idents rest) =
                 mset (map repo_name (filter (\<lambda>x. \<not> is_archived x) all_repos)))"
    if run: "stream_branches w scan order tok org = Some (Start n # rest, r)" for scan
  proof -
    from stream_branches_started[OF run] obtain all_repos tr names where
      f: "fetch_all_repos w org (gh_headers tok) [] = Some (Inr all_repos, tr)"
      and nm: "repo_names all_repos = Inr names" and n: "n = length names"
      by blast
    note flt = repo_names_filter[OF nm]
    have "mset (progress_idents rest) = mset names" if "r = None"
    proof -
      from run that stream_branches_closed[OF _ assms, of w scan tok org rest]
      obtain names' found where
        nm': "repo_names all_repos = Inr names'"
        and r: "rest = concat (map (\<lambda>(k, i). list_unit_events k (names' ! i) (found i))
                           (enumerate 0 order)) @ [Done]"
        using f by auto
      from nm nm' have [simp]: "names' = names" by simp
      have "progress_idents rest = map (\<lambda>i. names ! i) order"
        unfolding r using progress_idents_list_closed[of "\<lambda>i. names ! i" found 0 order]
        by simp
      then have "mset (progress_idents rest) = image_mset (\<lambda>i. names ! i) (mset order)"
        by simp
      also have "\<dots> = mset (map (\<lambda>i. names ! i) [0..<length names])"
        using assms n by simp
      also have "\<dots> = mset names" by (simp add: map_nth)
      finally show ?thesis .
    qed
    with f nm n flt show ?thesis by auto
  qed
  have audit: "\<exists>all_repos tr.
              fetch_all_repos w org (gh_headers tok) [] = Some (Inr all_repos, tr) \<and>
              n = length all_repos \<and>
              (r = None \<longrightarrow>
                 (\<exists>repo_data ident.
                    (\<forall>i < length all_repos.
                        process_one i (all_repos ! i) = Inr (repo_data i) \<and>
                        map_of (repo_data i) ''repository'' = Some (ident i)) \<and>
                    rest = concat (map (\<lambda>(k, i). [Progress (ident i) (Suc k),
                                                   Data (JObj (repo_data i))])
                                    (enumerate 0 order)) @ [Done] \<and>
                    mset (progress_idents rest) = mset (map ident [0..<length all_repos]) \<and>
                    length (progress_counts rest) = length all_repos))"
    if run: "stream_audit_repos w process_one order tok org = Some (Start n # rest, r)"
  proof -
    from stream_audit_repos_started[OF run] obtain all_repos tr where
      f: "fetch_all_repos w org (gh_headers tok) [] = Some (Inr all_repos, tr)"
      and n: "n = length all_repos"
      by blast
    have "\<exists>repo_data ident.
            (\<forall>i < length all_repos.
                process_one i (all_repos ! i) = Inr (repo_data i) \<and>
                map_of (repo_data i) ''repository'' = Some (ident i)) \<and>
            rest = concat (map (\<lambda>(k, i). [Progress (ident i) (Suc k),
                                           Data (JObj (repo_data i))])
                            (enumerate 0 order)) @ [Done] \<and>
            mset (progress_idents rest) = mset (map ident [0..<length all_repos]) \<and>
            length (progress_counts rest) = length all_repos" if "r = None"
    proof -
      from run that have run': "stream_audit_repos w process_one order tok org =
                                  Some (Start n # rest, None)" by simp
      from stream_audit_repos_closed[OF run' assms] f
      obtain data ident where
        ok: "\<forall>i < n. process_one i (all_repos ! i) = Inr (data i) \<and>
                 map_of (data i) ''repository'' = Some (ident i)"
        and r: "rest = concat (map (\<lambda>(k, i). audit_unit_events k (ident i) (data i))
                           (enumerate 0 order)) @ [Done]"
        by auto
      have r': "rest = concat (map (\<lambda>(k, i). [Progress (ident i) (Suc k), Data (JObj (data i))])
                           (enumerate 0 order)) @ [Done]"
        using r by (simp add: audit_unit_events_def)
      have "progress_idents rest = map ident order"
        unfolding r using progress_idents_audit_closed[of ident data 0 order] by simp
      then have ids: "mset (progress_idents rest) = mset (map ident [0..<length all_repos])"
        using mset_map_perm[OF assms, of ident] n by simp
      have "length (progress_counts (concat (map (\<lambda>(k, i). audit_unit_events k (ident i) (data i))
                           (enumerate 0 order)))) = length order"
        by (simp add: progress_counts_audit_closed del: upt_Suc)
      then have cnt: "length (progress_counts rest) = length all_repos"
        unfolding r using perm_upt_facts(1)[OF assms] n by simp
      from ok r' ids cnt n show ?thesis by blast
    qed
    with f n show ?thesis by blast
  qed
  show ?thesis
    using lists[of get_branch_details] lists[of get_repo_access] audit
    by (simp add: stream_access_eq)
qed

theorem archived_repositories_excluded_witness:
  "mset [1, 0] = mset [0..<2]
   \<and> fetch_all_repos world_org ''acme'' (gh_headers ''t'') [] =
       Some (Inr [one_repo, docs_repo, old_repo],
             [Get (repos_request ''acme'' (gh_headers ''t'') 1),
              Get (repos_request ''acme'' (gh_headers ''t'') 2)])
   \<and> is_archived old_repo \<and> \<not> is_archived one_repo \<and> \<not> is_archived docs_repo
   \<and> (\<exists>rest. stream_branches world_org branches_found [1, 0] ''t'' ''acme'' =
                Some (Start 2 # rest, None) \<and>
              mset (progress_idents rest) = mset [JStr ''tool'', JStr ''docs''])
   \<and> (\<exists>rest. stream_access world_org branches_found [1, 0] ''t'' ''acme'' =
                Some (Start 2 # rest, None) \<and>
              mset (progress_idents rest) = mset [JStr ''tool'', JStr ''docs''])
   \<and> mset [2, 0, 1] = mset [0..<3]
   \<and> (\<exists>rest. stream_audit_repos world_org audit_found [2, 0, 1] ''t'' ''acme'' =
                Some (Start 3 # rest, None) \<and>
              mset (progress_idents rest) = mset [JStr ''tool'', JStr ''docs'', JStr ''old''] \<and>
              length (progress_counts rest) = 3)"
proof -
  note b = run_branches_world_org[of "''t''" "''acme''"]
  note a = run_access_world_org[of "''t''" "''acme''"]
  note r = run_audit_world_org[of "''t''" "''acme''"]
  note f = fetch_world_org[of "''acme''" "gh_headers ''t''"]
  have arch: "is_archived old_repo" "\<not> is_archived one_repo" "\<not> is_archived docs_repo"
    by (simp_all add: is_archived_def old_repo_def one_repo_def docs_repo_def)
  have names: "map repo_name (filter (\<lambda>x. \<not> is_archived x) [one_repo, docs_repo, old_repo]) =
                 [JStr ''tool'', JStr ''docs'']"
    using arch by (simp add: repo_name_def one_repo_def docs_repo_def)
  note thm1 = archived_repositories_excluded[OF perm_examples(1), of world_org branches_found
      "''t''" "''acme''" _ None branches_found audit_found]
  from thm1 b f names
  have one: "\<exists>rest. stream_branches world_org branches_found [1, 0] ''t'' ''acme'' =
                Some (Start 2 # rest, None) \<and>
              mset (progress_idents rest) = mset [JStr ''tool'', JStr ''docs'']"
    by auto
  from thm1 a f names
  have two: "\<exists>rest. stream_access world_org branches_found [1, 0] ''t'' ''acme'' =
                Some (Start 2 # rest, None) \<and>
              mset (progress_idents rest) = mset [JStr ''tool'', JStr ''docs'']"
    by auto
  let ?rest = "[Progress (JStr ''old'') 1,
        Data (JObj [(''repository'', JStr ''old''), (''owner'', JStr ''acme'')]),
        Progress (JStr ''tool'') 2,
        Data (JObj [(''repository'', JStr ''tool''), (''owner'', JStr ''acme'')]),
        Progress (JStr ''docs'') 3,
        Data (JObj [(''repository'', JStr ''docs''), (''owner'', JStr ''acme'')]),
        Done]"
  from archived_repositories_excluded[OF perm_examples(2), of world_org branches_found
      "''t''" "''acme''" ?rest None branches_found audit_found,
      THEN conjunct2, THEN conjunct2, THEN mp, OF r]
  obtain all_repos tr where
    f': "fetch_all_repos world_org ''acme'' (gh_headers ''t'') [] = Some (Inr all_repos, tr)"
    and ex: "\<exists>repo_data ident.
        (\<forall>i < length all_repos.
            audit_found i (all_repos ! i) = Inr (repo_data i) \<and>
            map_of (repo_data i) ''repository'' = Some (ident i)) \<and>
        ?rest = concat (map (\<lambda>(k, i). [Progress (ident i) (Suc k), Data (JObj (repo_data i))])
                        (enumerate 0 [2, 0, 1])) @ [Done] \<and>
        mset (progress_idents ?rest) = mset (map ident [0..<length all_repos]) \<and>
        length (progress_counts ?rest) = length all_repos"
    by blast
  from f f' have all: "all_repos = [one_repo, docs_repo, old_repo]" by simp
  from ex obtain repo_data ident where
    ok: "\<forall>i < length all_repos.
           audit_found i (all_repos ! i) = Inr (repo_data i) \<and>
           map_of (repo_data i) ''repository'' = Some (ident i)"
    and ids: "mset (progress_idents ?rest) = mset (map ident [0..<length all_repos])"
    and cnt: "length (progress_counts ?rest) = length all_repos"
    by blast
  have i0: "ident 0 = JStr ''tool''"
  proof -
    from ok[rule_format, of 0] have a: "audit_found 0 one_repo = Inr (repo_data 0)"
      and b: "map_of (repo_data 0) ''repository'' = Some (ident 0)"
      by (simp_all add: all)
    from a have "repo_data 0 = [(''repository'', JStr ''tool''), (''owner'', JStr ''acme'')]"
      by (simp add: audit_found_def repo_name_def one_repo_def)
    with b show ?thesis by simp
  qed
  have i1: "ident 1 = JStr ''docs''"
  proof -
    from ok[rule_format, of 1] have a: "audit_found 1 docs_repo = Inr (repo_data 1)"
      and b: "map_of (repo_data 1) ''repository'' = Some (ident 1)"
      by (simp_all add: all)
    from a have "repo_data 1 = [(''repository'', JStr ''docs''), (''owner'', JStr ''acme'')]"
      by (simp add: audit_found_def repo_name_def docs_repo_def)
    with b show ?thesis by simp
  qed
  have i2: "ident 2 = JStr ''old''"
  proof -
    from ok[rule_format, of 2] have a: "audit_found 2 old_repo = Inr (repo_data 2)"
      and b: "map_of (repo_data 2) ''repository'' = Some (ident 2)"
      by (simp_all add: all)
    from a have "repo_data 2 = [(''repository'', JStr ''old''), (''owner'', JStr ''acme'')]"
      by (simp add: audit_found_def repo_name_def old_repo_def)
    with b show ?thesis by simp
  qed
  have "map ident [0..<length all_repos] = [ident 0, ident 1, ident 2]"
    by (simp add: all upt_conv_Cons numeral_2_eq_2)
  with i0 i1 i2 have "map ident [0..<length all_repos] =
                        [JStr ''tool'', JStr ''docs'', JStr ''old'']" by simp
  with ids cnt all
  have "mset (progress_idents ?rest) = mset [JStr ''tool'', JStr ''docs'', JStr ''old'']"
    and "length (progress_counts ?rest) = 3"
    by simp_all
  with r
  have three: "\<exists>rest. stream_audit_repos world_org audit_found [2, 0, 1] ''t'' ''acme'' =
                Some (Start 3 # rest, None) \<and>
              mset (progress_idents rest) = mset [JStr ''tool'', JStr ''docs'', JStr ''old''] \<and>
              length (progress_counts rest) = 3"
    by blast
  from one two three arch f perm_examples show ?thesis by blast
qed

section \<open>Properties of the audit unit\<close>

lemma issues_refl [simp]: "issues tr tr"
  by (simp add: issues_def permit_free_def)























lemma status_plain_response [simp]: "status (plain_response st) = st"
  by (simp add: plain_response_def)





section \<open>Properties of the semaphore\<close>










lemma holds_permit_Nil [simp]: "\<not> holds_permit []"
  by (simp add: holds_permit_def)











section \<open>Exceptions in units\<close>









end
